theory Spec2Isabelle
  imports Complex_Main "HOL-Library.Multiset" "HOL-Library.Sublist"
begin

section \<open>pywal/colors.py: palette generation\<close>

text \<open>
  A shallow embedding of \<^verbatim>\<open>pywal/colors.py\<close>. Python exceptions are values of the
  type \<open>error\<close>, named after the exception class that is raised; a function that can
  raise returns \<open>error + 'a\<close>. Python's \<^verbatim>\<open>str\<close> is modelled by \<open>string\<close>, one
  \<open>char\<close> per code point (code points below 256). Python's floats are modelled by the
  real numbers they denote: the source's arithmetic is IEEE double arithmetic, the
  model's is exact.
\<close>

subsection \<open>Exceptions\<close>

datatype error = ValueError | TypeError | IndexError | OSError | ImportError | BackendError

subsection \<open>The builtin \<^verbatim>\<open>int(s, 16)\<close>\<close>

text \<open>
  \<^verbatim>\<open>int(s, 16)\<close> on a string: surrounding whitespace is skipped, one sign is
  accepted, then an optional prefix \<^verbatim>\<open>0x\<close>/\<^verbatim>\<open>0X\<close> (and one underscore after it),
  then base-16 digits with single underscores between digits. Anything else raises
  ValueError. The whitespace skipped is tab, line feed, vertical tab, form feed, carriage
  return and space, and of the code points from 128 to 255 the two that are Unicode
  whitespace (0x85 and 0xA0), which the conversion turns into spaces; the separators
  0x1C to 0x1F are not skipped.
\<close>

definition is_space :: "char \<Rightarrow> bool" where
  "is_space c \<longleftrightarrow> c \<in> set [CHR 0x09, CHR 0x0A, CHR 0x0B, CHR 0x0C, CHR 0x0D, CHR 0x20,
     CHR 0x85, CHR 0xA0]"

definition strip :: "string \<Rightarrow> string" where
  "strip s = rev (dropWhile is_space (rev (dropWhile is_space s)))"

definition digit16 :: "char \<Rightarrow> nat option" where
  "digit16 c =
     (let n = (of_char c :: nat) in
      if 48 \<le> n \<and> n \<le> 57 then Some (n - 48)
      else if 97 \<le> n \<and> n \<le> 102 then Some (n - 87)
      else if 65 \<le> n \<and> n \<le> 70 then Some (n - 55)
      else None)"

fun digits16 :: "int \<Rightarrow> char \<Rightarrow> string \<Rightarrow> error + int" where
  "digits16 acc prev [] = (if prev = CHR ''_'' then Inl ValueError else Inr acc)"
| "digits16 acc prev (c # cs) =
     (if c = CHR ''_'' then
        (if prev = CHR ''_'' then Inl ValueError else digits16 acc c cs)
      else (case digit16 c of
              None \<Rightarrow> Inl ValueError
            | Some d \<Rightarrow> digits16 (16 * acc + int d) c cs))"

definition skip_sign :: "string \<Rightarrow> bool \<times> string" where
  "skip_sign t =
     (case t of
        [] \<Rightarrow> (False, t)
      | c # r \<Rightarrow> if c = CHR ''+'' then (False, r)
                 else if c = CHR ''-'' then (True, r)
                 else (False, t))"

definition skip_prefix16 :: "string \<Rightarrow> string" where
  "skip_prefix16 t =
     (case t of
        c # x # r \<Rightarrow>
          if c = CHR ''0'' \<and> (x = CHR ''x'' \<or> x = CHR ''X'')
          then (case r of [] \<Rightarrow> r | u # r' \<Rightarrow> if u = CHR ''_'' then r' else r)
          else t
      | _ \<Rightarrow> t)"

definition int16 :: "string \<Rightarrow> error + int" where
  "int16 s =
     (let (neg, t) = skip_sign (strip s);
          d = skip_prefix16 t
      in case d of
           [] \<Rightarrow> Inl ValueError
         | c # _ \<Rightarrow>
             if c = CHR ''_'' then Inl ValueError
             else (case digits16 0 c d of
                     Inl e \<Rightarrow> Inl e
                   | Inr v \<Rightarrow> Inr (if neg then - v else v)))"

subsection \<open>Colors and the reference palette\<close>

type_synonym rgb = "real \<times> real \<times> real"

definition x_colors_b :: "(int \<times> int \<times> int) list" where
  "x_colors_b =
     [(0, 0, 0),
      (205, 0, 0),
      (0, 205, 0),
      (205, 205, 0),
      (0, 0, 238),
      (205, 0, 205),
      (0, 205, 205),
      (229, 229, 229),
      (255, 0, 0),
      (0, 255, 0),
      (255, 255, 0),
      (92, 92, 255),
      (255, 0, 255),
      (0, 255, 255),
      (127, 127, 127),
      (255, 255, 255)]"

definition x_colors :: "rgb list" where
  "x_colors = map (\<lambda>(r, g, b). (real_of_int r / 255, real_of_int g / 255, real_of_int b / 255))
     x_colors_b"

definition hex_to_rgb :: "string \<Rightarrow> error + rgb" where
  "hex_to_rgb hex_color =
     (let h = dropWhile (\<lambda>c. c = CHR ''#'') hex_color in
      case int16 (take 2 h) of
        Inl e \<Rightarrow> Inl e
      | Inr r \<Rightarrow>
          (case int16 (take 2 (drop 2 h)) of
             Inl e \<Rightarrow> Inl e
           | Inr g \<Rightarrow>
               (case int16 (take 2 (drop 4 h)) of
                  Inl e \<Rightarrow> Inl e
                | Inr b \<Rightarrow>
                    Inr (real_of_int r / 255, real_of_int g / 255, real_of_int b / 255))))"

text \<open>
  The distance is computed here in exact arithmetic. The source computes it in doubles,
  where two colors whose exact distances are equal, or differ by less than the rounding,
  can compare differently; then \<^verbatim>\<open>min\<close> picks by the doubles.
\<close>

definition color_diff :: "rgb \<Rightarrow> string \<Rightarrow> error + real" where
  "color_diff rgb1 hex_color2 =
     (case rgb1 of (r1, g1, b1) \<Rightarrow>
        (case hex_to_rgb hex_color2 of
           Inl e \<Rightarrow> Inl e
         | Inr (r2, g2, b2) \<Rightarrow>
             Inr (sqrt ((r2 - r1)\<^sup>2 + (g2 - g1)\<^sup>2 + (b2 - b1)\<^sup>2))))"

subsection \<open>The builtin \<^verbatim>\<open>min(xs, key=f)\<close>\<close>

text \<open>
  \<^verbatim>\<open>min\<close> raises ValueError on an empty sequence. Otherwise it calls the key on every
  item in order (an exception of the key propagates) and keeps the current best item,
  replacing it only by an item whose key is strictly smaller: the first minimal item
  is returned.
\<close>

fun min_from :: "('a \<Rightarrow> error + 'k::linorder) \<Rightarrow> 'a \<Rightarrow> 'k \<Rightarrow> 'a list \<Rightarrow> error + 'a" where
  "min_from f best bk [] = Inr best"
| "min_from f best bk (y # ys) =
     (case f y of
        Inl e \<Rightarrow> Inl e
      | Inr k \<Rightarrow> if k < bk then min_from f y k ys else min_from f best bk ys)"

fun min_key :: "('a \<Rightarrow> error + 'k::linorder) \<Rightarrow> 'a list \<Rightarrow> error + 'a" where
  "min_key f [] = Inl ValueError"
| "min_key f (x # xs) =
     (case f x of
        Inl e \<Rightarrow> Inl e
      | Inr k \<Rightarrow> min_from f x k xs)"

subsection \<open>match_colors\<close>

text \<open>
  The loop of \<^verbatim>\<open>match_colors\<close> over \<^verbatim>\<open>enumerate(x_colors)\<close>: \<open>i\<close> is the index,
  \<open>cs\<close> the copy of the input that shrinks, \<open>out\<close> the output list, which starts as
  \<^verbatim>\<open>[None] * len(colors)\<close>. The distance \<open>d\<close> is \<open>color_diff\<close> in \<open>match_colors\<close>;
  the loop is stated for any distance into a linear order, so that what is proved of
  it does not rest on the exact arithmetic of the model. \<^verbatim>\<open>cs.remove(desired)\<close>
  removes the first item equal to \<open>desired\<close>, which is in \<open>cs\<close>.
\<close>

fun match_loop ::
  "('r \<Rightarrow> string \<Rightarrow> error + 'k::linorder) \<Rightarrow> 'r list \<Rightarrow> nat \<Rightarrow> string list \<Rightarrow>
   string option list \<Rightarrow> error + string option list" where
  "match_loop d [] i cs out = Inr out"
| "match_loop d (x_color # rest) i cs out =
     (case min_key (d x_color) cs of
        Inl e \<Rightarrow> Inl e
      | Inr desired \<Rightarrow>
          if i < length out
          then match_loop d rest (Suc i) (remove1 desired cs) (out[i := Some desired])
          else Inl IndexError)"

definition match_colors :: "string list \<Rightarrow> error + string option list" where
  "match_colors colors =
     match_loop color_diff x_colors 0 colors (replicate (length colors) None)"

definition valid_hex :: "string \<Rightarrow> bool" where
  "valid_hex c = (case hex_to_rgb c of Inl _ \<Rightarrow> False | Inr _ \<Rightarrow> True)"

subsection \<open>The builtin \<^verbatim>\<open>float(x)\<close> and truthiness\<close>

text \<open>
  A float is a real number, an infinity or a NaN; rounding to a double (and with it
  overflow to an infinity and underflow to zero) is not modelled. The saturation amount
  is dynamically typed: \<^verbatim>\<open>None\<close>, a string (as it comes from the command line; the
  default is \<^verbatim>\<open>""\<close>) or a float.

  \<^verbatim>\<open>float(s)\<close> on a string: surrounding whitespace is skipped; underscores are
  accepted between digits only and dropped; then comes an optional sign and either a
  decimal number (digits with an optional point and an optional exponent, at least one
  digit in the mantissa and in an exponent) or one of \<^verbatim>\<open>inf\<close>, \<^verbatim>\<open>infinity\<close>, \<^verbatim>\<open>nan\<close> in
  any case. Anything else raises ValueError.
\<close>

datatype pyfloat = Fin real | PInf | NInf | NaN

datatype amount = ANone | AStr string | AFloat pyfloat

definition is_digit :: "char \<Rightarrow> bool" where
  "is_digit c \<longleftrightarrow> 48 \<le> (of_char c :: nat) \<and> (of_char c :: nat) \<le> 57"

definition lower :: "char \<Rightarrow> char" where
  "lower c = (let n = (of_char c :: nat) in if 65 \<le> n \<and> n \<le> 90 then char_of (n + 32) else c)"

fun drop_underscores :: "char \<Rightarrow> string \<Rightarrow> string option" where
  "drop_underscores prev [] = (if prev = CHR ''_'' then None else Some [])"
| "drop_underscores prev (c # cs) =
     (if c = CHR ''_'' then
        (if is_digit prev then drop_underscores c cs else None)
      else if prev = CHR ''_'' \<and> \<not> is_digit c then None
      else map_option ((#) c) (drop_underscores c cs))"

fun digits10 :: "nat \<Rightarrow> string \<Rightarrow> nat" where
  "digits10 acc [] = acc"
| "digits10 acc (c # cs) = digits10 (10 * acc + ((of_char c :: nat) - 48)) cs"

definition exponent10 :: "string \<Rightarrow> int \<times> string" where
  "exponent10 s =
     (case s of
        [] \<Rightarrow> (0, s)
      | e # r \<Rightarrow>
          if e = CHR ''e'' \<or> e = CHR ''E'' then
            (let (neg, r') = skip_sign r; ds = takeWhile is_digit r'
             in if ds = [] then (0, s)
                else ((if neg then - int (digits10 0 ds) else int (digits10 0 ds)),
                      dropWhile is_digit r'))
          else (0, s))"

definition decimal :: "string \<Rightarrow> (real \<times> string) option" where
  "decimal s =
     (let ip = takeWhile is_digit s;
          r1 = dropWhile is_digit s;
          (fp, r2) = (case r1 of
                        [] \<Rightarrow> ([], r1)
                      | p # r \<Rightarrow> if p = CHR ''.''
                                 then (takeWhile is_digit r, dropWhile is_digit r)
                                 else ([], r1))
      in if ip = [] \<and> fp = [] then None
         else (let m = real (digits10 0 (ip @ fp));
                   (ex, r3) = exponent10 r2;
                   sh = ex - int (length fp)
               in Some ((if 0 \<le> sh then m * 10 ^ nat sh else m / 10 ^ nat (- sh)), r3)))"

definition float_of_str :: "string \<Rightarrow> error + pyfloat" where
  "float_of_str s =
     (let t = strip s in
      case (if CHR ''_'' \<in> set t then drop_underscores (CHR 0x00) t else Some t) of
        None \<Rightarrow> Inl ValueError
      | Some u \<Rightarrow>
          (let (neg, v) = skip_sign u in
           case decimal v of
             Some (x, rest) \<Rightarrow>
               if rest = [] then Inr (Fin (if neg then - x else x)) else Inl ValueError
           | None \<Rightarrow>
               (let w = map lower v in
                if w = ''inf'' \<or> w = ''infinity'' then Inr (if neg then NInf else PInf)
                else if w = ''nan'' then Inr NaN
                else Inl ValueError)))"

fun py_float :: "amount \<Rightarrow> error + pyfloat" where
  "py_float ANone = Inl TypeError"
| "py_float (AStr s) = float_of_str s"
| "py_float (AFloat f) = Inr f"

fun truthy :: "amount \<Rightarrow> bool" where
  "truthy ANone = False"
| "truthy (AStr s) = (s \<noteq> [])"
| "truthy (AFloat f) = (f \<noteq> Fin 0)"

text \<open>The comparison \<^verbatim>\<open>f <= 1.0\<close>.\<close>

fun le_one :: "pyfloat \<Rightarrow> bool" where
  "le_one (Fin x) = (x \<le> 1)"
| "le_one PInf = False"
| "le_one NInf = True"
| "le_one NaN = False"

subsection \<open>The color operations of \<^verbatim>\<open>util\<close>\<close>

text \<open>
  \<^verbatim>\<open>util.saturate_color\<close>, \<^verbatim>\<open>util.darken_color\<close> and \<^verbatim>\<open>util.lighten_color\<close> are not
  part of \<^verbatim>\<open>colors.py\<close>: they are parameters of the model, and each may raise.
  \<^verbatim>\<open>generic_adjust\<close> and \<^verbatim>\<open>saturate_colors\<close> never look into a color, they only
  pass it to these operations, so both are stated for any type \<open>'c\<close> of colors.
\<close>

record 'c util =
  saturate_color :: "'c \<Rightarrow> pyfloat \<Rightarrow> error + 'c"
  darken_color :: "'c \<Rightarrow> pyfloat \<Rightarrow> error + 'c"
  lighten_color :: "'c \<Rightarrow> pyfloat \<Rightarrow> error + 'c"

text \<open>
  The free interpretation of the three operations: a color is either a given color or
  the record of the operation that made it. It never raises.
\<close>

datatype sym = Col string | Saturated sym pyfloat | Darkened sym pyfloat | Lightened sym pyfloat

definition sym_util :: "sym util" where
  "sym_util = \<lparr>saturate_color = (\<lambda>c a. Inr (Saturated c a)),
                darken_color = (\<lambda>c a. Inr (Darkened c a)),
                lighten_color = (\<lambda>c a. Inr (Lightened c a))\<rparr>"

subsection \<open>Lists as objects: the store\<close>

text \<open>
  \<^verbatim>\<open>saturate_colors\<close> and \<^verbatim>\<open>generic_adjust\<close> assign to the items of the list they
  are given. A list is an object at a reference; the store maps each reference to the
  items of its list. A statement takes the store and returns its result, or the
  exception it raises, with the store it leaves behind.
\<close>

type_synonym ref = nat
type_synonym 'c store = "ref \<Rightarrow> 'c list"
type_synonym ('c, 'a) prog = "'c store \<Rightarrow> (error + 'a) \<times> 'c store"

definition ret :: "'a \<Rightarrow> ('c, 'a) prog" where
  "ret x = (\<lambda>h. (Inr x, h))"

definition call :: "error + 'a \<Rightarrow> ('c, 'a) prog" where
  "call r = (\<lambda>h. (r, h))"

definition seq :: "('c, 'a) prog \<Rightarrow> ('a \<Rightarrow> ('c, 'b) prog) \<Rightarrow> ('c, 'b) prog" where
  "seq m f = (\<lambda>h. case m h of (Inl e, h') \<Rightarrow> (Inl e, h') | (Inr x, h') \<Rightarrow> f x h')"

text \<open>\<^verbatim>\<open>xs[i]\<close> and \<^verbatim>\<open>xs[i] = v\<close> for an index \<open>i \<ge> 0\<close>.\<close>

definition getitem :: "ref \<Rightarrow> nat \<Rightarrow> ('c, 'c) prog" where
  "getitem xs i = (\<lambda>h. if i < length (h xs) then (Inr (h xs ! i), h) else (Inl IndexError, h))"

definition setitem :: "ref \<Rightarrow> nat \<Rightarrow> 'c \<Rightarrow> ('c, unit) prog" where
  "setitem xs i v =
     (\<lambda>h. if i < length (h xs) then (Inr (), h(xs := (h xs)[i := v])) else (Inl IndexError, h))"

subsection \<open>generic_adjust\<close>

text \<open>
  The loop \<^verbatim>\<open>for color in colors\<close> of the light branch: each pass assigns the results
  of the two operations to the loop variable \<^verbatim>\<open>color\<close>, and to nothing else.
\<close>

fun adjust_loop :: "'c util \<Rightarrow> 'c list \<Rightarrow> ('c, unit) prog" where
  "adjust_loop u [] = ret ()"
| "adjust_loop u (color # rest) =
     seq (call (saturate_color u color (Fin (60 / 100)))) (\<lambda>color.
     seq (call (darken_color u color (Fin (5 / 10)))) (\<lambda>color.
     adjust_loop u rest))"

definition generic_adjust :: "'c util \<Rightarrow> ref \<Rightarrow> bool \<Rightarrow> ('c, ref) prog" where
  "generic_adjust u colors light =
     (if light then
        seq (\<lambda>h. adjust_loop u (h colors) h) (\<lambda>_.
        seq (getitem colors 0) (\<lambda>c. seq (call (lighten_color u c (Fin (95 / 100)))) (\<lambda>v.
        seq (setitem colors 0 v) (\<lambda>_.
        seq (getitem colors 0) (\<lambda>c. seq (call (darken_color u c (Fin (75 / 100)))) (\<lambda>v.
        seq (setitem colors 7 v) (\<lambda>_.
        seq (getitem colors 0) (\<lambda>c. seq (call (darken_color u c (Fin (25 / 100)))) (\<lambda>v.
        seq (setitem colors 8 v) (\<lambda>_.
        seq (getitem colors 7) (\<lambda>v.
        seq (setitem colors 15 v) (\<lambda>_.
        ret colors))))))))))))
      else
        seq (getitem colors 0) (\<lambda>c. seq (call (darken_color u c (Fin (80 / 100)))) (\<lambda>v.
        seq (setitem colors 0 v) (\<lambda>_.
        seq (getitem colors 0) (\<lambda>c. seq (call (lighten_color u c (Fin (75 / 100)))) (\<lambda>v.
        seq (setitem colors 7 v) (\<lambda>_.
        seq (getitem colors 0) (\<lambda>c. seq (call (lighten_color u c (Fin (25 / 100)))) (\<lambda>v.
        seq (setitem colors 8 v) (\<lambda>_.
        seq (getitem colors 7) (\<lambda>v.
        seq (setitem colors 15 v) (\<lambda>_.
        ret colors))))))))))))"

subsection \<open>saturate_colors\<close>

text \<open>
  The loop over \<^verbatim>\<open>enumerate(colors)\<close>; the list keeps its length, so the indices are
  those of the list when the loop starts.
\<close>

fun saturate_loop :: "'c util \<Rightarrow> ref \<Rightarrow> amount \<Rightarrow> nat list \<Rightarrow> ('c, unit) prog" where
  "saturate_loop u colors amount [] = ret ()"
| "saturate_loop u colors amount (i # rest) =
     (if i \<notin> set [0, 7, 8, 15] then
        seq (getitem colors i) (\<lambda>c.
        seq (call (py_float amount)) (\<lambda>a.
        seq (call (saturate_color u c a)) (\<lambda>v.
        seq (setitem colors i v) (\<lambda>_.
        saturate_loop u colors amount rest))))
      else saturate_loop u colors amount rest)"

definition saturate_colors :: "'c util \<Rightarrow> ref \<Rightarrow> amount \<Rightarrow> ('c, ref) prog" where
  "saturate_colors u colors amount =
     (if truthy amount then
        seq (call (py_float amount)) (\<lambda>a.
          if le_one a then
            seq (\<lambda>h. saturate_loop u colors amount [0..<length (h colors)] h) (\<lambda>_. ret colors)
          else ret colors)
      else ret colors)"

subsection \<open>The scheme and colors_to_dict\<close>

text \<open>
  The dictionary that \<^verbatim>\<open>colors_to_dict\<close> builds, one field per key. The dictionaries
  under \<^verbatim>\<open>"special"\<close> and \<^verbatim>\<open>"colors"\<close> are lists of key and value in the order of
  insertion. A value is an item of the list \<^verbatim>\<open>match_colors\<close> returns, so it is a color
  or \<^verbatim>\<open>None\<close>. \<^verbatim>\<open>util.Color.alpha_num\<close> is a parameter.
\<close>

record scheme =
  scheme_wallpaper :: string
  scheme_alpha :: string
  scheme_special :: "(string \<times> string option) list"
  scheme_colors :: "(string \<times> string option) list"

text \<open>\<^verbatim>\<open>str(n)\<close> for an integer \<open>n \<ge> 0\<close>, as \<^verbatim>\<open>%s\<close> and \<^verbatim>\<open>'{}'.format\<close> print it.\<close>

definition digit_char :: "nat \<Rightarrow> char" where
  "digit_char n = ''0123456789'' ! n"

fun str_nat :: "nat \<Rightarrow> string" where
  "str_nat n = (if n < 10 then [digit_char n] else str_nat (n div 10) @ [digit_char (n mod 10)])"

declare str_nat.simps [simp del]

definition colors_to_dict :: "string \<Rightarrow> string list \<Rightarrow> string \<Rightarrow> error + scheme" where
  "colors_to_dict alpha_num colors img =
     (case match_colors colors of
        Inl e \<Rightarrow> Inl e
      | Inr cs \<Rightarrow>
          (let ok = map (\<lambda>(i, v). (''color'' @ str_nat i, v)) (enumerate 0 cs)
           in if 15 < length cs
              then Inr \<lparr>scheme_wallpaper = img,
                        scheme_alpha = alpha_num,
                        scheme_special = [(''background'', cs ! 0), (''foreground'', cs ! 15),
                                          (''cursor'', cs ! 15)],
                        scheme_colors = ok\<rparr>
              else Inl IndexError))"

subsection \<open>Files\<close>

text \<open>
  A file has a size in bytes and, when its content is the JSON of a scheme, that
  scheme. The file system maps the paths of the files that exist to them.
\<close>

record disk_file =
  fsize :: nat
  fjson :: "scheme option"

type_synonym fs = "string \<Rightarrow> disk_file option"

text \<open>
  \<^verbatim>\<open>os.path.join\<close> (POSIX): a component that starts with the separator replaces what
  was joined so far.
\<close>

definition join_step :: "string \<Rightarrow> string \<Rightarrow> string" where
  "join_step path b =
     (if (case b of [] \<Rightarrow> False | c # _ \<Rightarrow> c = CHR ''/'') then b
      else if path = [] \<or> last path = CHR ''/'' then path @ b
      else path @ ''/'' @ b)"

fun path_join :: "string list \<Rightarrow> error + string" where
  "path_join [] = Inl TypeError"
| "path_join (a # p) = Inr (foldl join_step a p)"

subsection \<open>cache_fname\<close>

text \<open>
  \<^verbatim>\<open>re.sub("[/|\\|.]", "_", img)\<close>: the string literal denotes the pattern
  \<^verbatim>\<open>[/|\|.]\<close>, one character class. In a class \<^verbatim>\<open>|\<close> is an ordinary character and
  \<^verbatim>\<open>\|\<close> is an escaped \<^verbatim>\<open>|\<close>, so the class holds the three characters \<^verbatim>\<open>/\<close>, \<^verbatim>\<open>|\<close>
  and \<^verbatim>\<open>.\<close>, and each of them is replaced by \<^verbatim>\<open>_\<close>.
\<close>

definition sanitize :: "string \<Rightarrow> string" where
  "sanitize img =
     map (\<lambda>c. if c = CHR ''/'' \<or> c = CHR ''|'' \<or> c = CHR ''.'' then CHR ''_'' else c) img"

text \<open>
  \<^verbatim>\<open>os.path.getsize\<close> raises OSError when the file does not exist.
  \<^verbatim>\<open>__cache_version__\<close> comes from \<^verbatim>\<open>settings\<close> and is a parameter; \<open>backend\<close> and
  \<open>sat\<close> are strings.
\<close>

definition cache_fname ::
  "fs \<Rightarrow> string \<Rightarrow> string \<Rightarrow> string \<Rightarrow> bool \<Rightarrow> string \<Rightarrow> string \<Rightarrow> error + string list" where
  "cache_fname fs cache_version img backend light cache_dir sat =
     (let color_type = (if light then ''light'' else ''dark'');
          file_name = sanitize img
      in case fs img of
           None \<Rightarrow> Inl OSError
         | Some f \<Rightarrow>
             Inr [cache_dir, ''schemes'',
                  file_name @ ''_'' @ color_type @ ''_'' @ backend @ ''_'' @ sat @ ''_'' @
                  str_nat (fsize f) @ ''_'' @ cache_version @ ''.json''])"

subsection \<open>Backends and the environment of get\<close>

text \<open>
  What \<^verbatim>\<open>get\<close> takes from outside \<^verbatim>\<open>colors.py\<close>: the cache version, the names in the
  directory of backends, the outcome of \<^verbatim>\<open>random.shuffle\<close>, which backend modules can
  be imported, what the \<^verbatim>\<open>get\<close> of a backend returns for an image, the color operations,
  the alpha value, the size of the JSON written for a scheme and which paths can be
  written.
\<close>

record env =
  cache_version :: string
  backend_files :: "string list"
  shuffle :: "string list \<Rightarrow> string list"
  importable :: "string \<Rightarrow> bool"
  backend_get :: "string \<Rightarrow> string \<Rightarrow> bool \<Rightarrow> error + string list"
  util :: "string util"
  alpha_num :: string
  json_size :: "scheme \<Rightarrow> nat"
  writable :: "string \<Rightarrow> bool"

text \<open>\<^verbatim>\<open>name.replace(".py", "")\<close> and \<^verbatim>\<open>"__" in name\<close>.\<close>

fun replace_py :: "string \<Rightarrow> string" where
  "replace_py (a # b # c # r) =
     (if a = CHR ''.'' \<and> b = CHR ''p'' \<and> c = CHR ''y'' then replace_py r
      else a # replace_py (b # c # r))"
| "replace_py s = s"

fun has_dunder :: "string \<Rightarrow> bool" where
  "has_dunder (a # b # r) = ((a = CHR ''_'' \<and> b = CHR ''_'') \<or> has_dunder (b # r))"
| "has_dunder s = False"

definition list_backends :: "env \<Rightarrow> string list" where
  "list_backends e = map replace_py (filter (\<lambda>name. \<not> has_dunder name) (backend_files e))"

definition get_backend :: "env \<Rightarrow> string \<Rightarrow> error + string" where
  "get_backend e backend =
     (if backend = ''random'' then
        (case shuffle e (list_backends e) of
           [] \<Rightarrow> Inl IndexError
         | b # _ \<Rightarrow> Inr b)
      else Inr backend)"

subsection \<open>The cache store\<close>

text \<open>
  Modelled from the spec: \<^verbatim>\<open>theme.file\<close>, which is not part of \<^verbatim>\<open>colors.py\<close>. The spec
  has it load and parse the JSON blob of the cache file: it returns the scheme the file
  holds, and raises when there is no file or the file holds no scheme.
\<close>

definition theme_file :: "fs \<Rightarrow> string \<Rightarrow> error + scheme" where
  "theme_file fs input_file =
     (case fs input_file of
        None \<Rightarrow> Inl OSError
      | Some f \<Rightarrow> (case fjson f of None \<Rightarrow> Inl ValueError | Some s \<Rightarrow> Inr s))"

text \<open>
  Modelled from the spec: \<^verbatim>\<open>util.save_file_json\<close>, which is not part of \<^verbatim>\<open>colors.py\<close>.
  The spec has it persist the scheme as JSON at the path: afterwards the file at the
  path holds the scheme. It raises when the path cannot be written.
\<close>

definition save_file_json :: "env \<Rightarrow> scheme \<Rightarrow> string \<Rightarrow> fs \<Rightarrow> (error + unit) \<times> fs" where
  "save_file_json e data export_file fs =
     (if writable e export_file
      then (Inr (), fs(export_file \<mapsto> \<lparr>fsize = json_size e data, fjson = Some data\<rparr>))
      else (Inl OSError, fs))"

subsection \<open>get\<close>

text \<open>
  \<^verbatim>\<open>get\<close> takes the file system and returns its result, or the exception it raises,
  with the file system it leaves behind. The list the backend returns is a fresh object;
  \<^verbatim>\<open>saturate_colors\<close> runs on a store that holds it. \<open>sat\<close> is a string.
\<close>

definition get ::
  "env \<Rightarrow> string \<Rightarrow> bool \<Rightarrow> string \<Rightarrow> string \<Rightarrow> string \<Rightarrow> fs \<Rightarrow> (error + scheme) \<times> fs" where
  "get e img light backend cache_dir sat fs =
     (case cache_fname fs (cache_version e) img backend light cache_dir sat of
        Inl err \<Rightarrow> (Inl err, fs)
      | Inr cache_name \<Rightarrow>
          (case path_join cache_name of
             Inl err \<Rightarrow> (Inl err, fs)
           | Inr cache_file \<Rightarrow>
               if fs cache_file \<noteq> None then
                 (case theme_file fs cache_file of
                    Inl err \<Rightarrow> (Inl err, fs)
                  | Inr colors \<Rightarrow> (Inr (colors\<lparr>scheme_alpha := alpha_num e\<rparr>), fs))
               else
                 (case get_backend e backend of
                    Inl err \<Rightarrow> (Inl err, fs)
                  | Inr backend \<Rightarrow>
                      (case (if importable e backend then Inr backend
                             else if importable e ''wal'' then Inr ''wal''
                             else Inl ImportError) of
                         Inl err \<Rightarrow> (Inl err, fs)
                       | Inr backend \<Rightarrow>
                           (case backend_get e backend img light of
                              Inl err \<Rightarrow> (Inl err, fs)
                            | Inr colors \<Rightarrow>
                                (case saturate_colors (util e) 0 (AStr sat) (\<lambda>_. colors) of
                                   (Inl err, _) \<Rightarrow> (Inl err, fs)
                                 | (Inr r, h) \<Rightarrow>
                                     (case colors_to_dict (alpha_num e) (h r) img of
                                        Inl err \<Rightarrow> (Inl err, fs)
                                      | Inr colors \<Rightarrow>
                                          (case save_file_json e colors cache_file fs of
                                             (Inl err, fs') \<Rightarrow> (Inl err, fs')
                                           | (Inr _, fs') \<Rightarrow> (Inr colors, fs')))))))))"

subsection \<open>What the matcher is to compute\<close>

text \<open>
  \<open>first_min_pick d x pool m\<close>: \<open>m\<close> is the first item of \<open>pool\<close> at minimal
  distance to \<open>x\<close>: every item before it is strictly farther, every item after it is
  at least as far, and removing \<open>m\<close> from \<open>pool\<close> removes that very occurrence.
  \<open>remaining cs ms\<close> is the pool left of \<open>cs\<close> after the items \<open>ms\<close> were removed in turn.
\<close>

definition first_min_pick ::
  "('r \<Rightarrow> string \<Rightarrow> error + 'k::linorder) \<Rightarrow> 'r \<Rightarrow> string list \<Rightarrow> string \<Rightarrow> bool" where
  "first_min_pick d x pool m \<longleftrightarrow>
     (\<exists>pre post dm. pool = pre @ m # post \<and> remove1 m pool = pre @ post \<and> d x m = Inr dm \<and>
        (\<forall>c \<in> set pre. \<exists>dc. d x c = Inr dc \<and> dm < dc) \<and>
        (\<forall>c \<in> set post. \<exists>dc. d x c = Inr dc \<and> dm \<le> dc))"

fun remaining :: "string list \<Rightarrow> string list \<Rightarrow> string list" where
  "remaining cs [] = cs"
| "remaining cs (m # ms) = remaining (remove1 m cs) ms"

fun greedy ::
  "('r \<Rightarrow> string \<Rightarrow> error + 'k::linorder) \<Rightarrow> 'r list \<Rightarrow> string list \<Rightarrow> string list \<Rightarrow> bool" where
  "greedy d [] cs [] = True"
| "greedy d (x # xs) cs (m # ms) = (first_min_pick d x cs m \<and> greedy d xs (remove1 m cs) ms)"
| "greedy d _ _ _ = False"


subsection \<open>The strings hex_to_rgb is meant for\<close>

text \<open>
  The strings \<^verbatim>\<open>#rrggbb\<close> and \<^verbatim>\<open>rrggbb\<close>: six base-16 digits, after at most one
  \<^verbatim>\<open>#\<close>. This predicate is written from the description of \<^verbatim>\<open>hex_to_rgb\<close>, not
  from its code.
\<close>

definition is_rrggbb :: "string \<Rightarrow> bool" where
  "is_rrggbb s \<longleftrightarrow>
     (let t = (case s of [] \<Rightarrow> [] | c # r \<Rightarrow> if c = CHR ''#'' then r else s)
      in length t = 6 \<and> list_all (\<lambda>c. digit16 c \<noteq> None) t)"


text \<open>
  The integer that a slice of one or two characters denotes for \<^verbatim>\<open>int(s, 16)\<close>, if
  any: two digits; one digit alone, after a sign or next to a whitespace character.
\<close>

fun slice_value :: "string \<Rightarrow> int option" where
  "slice_value [a] = map_option int (digit16 a)"
| "slice_value [a, b] =
     (case (digit16 a, digit16 b) of
        (Some x, Some y) \<Rightarrow> Some (16 * int x + int y)
      | (None, Some y) \<Rightarrow>
          if a = CHR ''+'' \<or> is_space a then Some (int y)
          else if a = CHR ''-'' then Some (- int y)
          else None
      | (Some x, None) \<Rightarrow> if is_space b then Some (int x) else None
      | (None, None) \<Rightarrow> None)"
| "slice_value s = None"


subsection \<open>Example inputs\<close>

definition example_colors :: "string list" where
  "example_colors =
     [''#1a1b26'', ''#f7768e'', ''#9ece6a'', ''#e0af68'', ''#7aa2f7'', ''#bb9af7'',
      ''#7dcfff'', ''#a9b1d6'', ''#414868'', ''#ff9e64'', ''#73daca'', ''#b4f9f8'',
      ''#2ac3de'', ''#c0caf5'', ''#565f89'', ''#cfc9c2'']"

definition example_store :: "sym store" where
  "example_store = (\<lambda>_. map Col example_colors)"

text \<open>
  An image whose path holds a \<^verbatim>\<open>|\<close> and a backslash, a file system that holds only
  this image, an environment with the backend \<^verbatim>\<open>wal\<close> that returns the example colors,
  the colors matched to the slots, and the scheme and the cache file they give.
\<close>

definition example_image :: string where
  "example_image = ''/home/user/a|b'' @ [CHR 0x5C] @ ''c.jpg''"

definition example_fs :: fs where
  "example_fs = (\<lambda>p. if p = example_image then Some \<lparr>fsize = 10000, fjson = None\<rparr> else None)"

definition example_util :: "string util" where
  "example_util = \<lparr>saturate_color = (\<lambda>c a. Inr c), darken_color = (\<lambda>c a. Inr c),
                    lighten_color = (\<lambda>c a. Inr c)\<rparr>"

definition example_env :: env where
  "example_env =
     \<lparr>cache_version = ''1.1.0'',
      backend_files = [''wal.py'', ''colorz.py'', ''__init__.py''],
      shuffle = rev,
      importable = (\<lambda>b. b = ''wal''),
      backend_get = (\<lambda>b img light. Inr example_colors),
      util = example_util,
      alpha_num = ''100'',
      json_size = (\<lambda>_. 2000),
      writable = (\<lambda>_. True)\<rparr>"

definition example_matched :: "string list" where
  "example_matched =
     [''#1a1b26'', ''#414868'', ''#9ece6a'', ''#e0af68'', ''#565f89'', ''#f7768e'',
      ''#2ac3de'', ''#c0caf5'', ''#ff9e64'', ''#73daca'', ''#cfc9c2'', ''#7aa2f7'',
      ''#bb9af7'', ''#7dcfff'', ''#a9b1d6'', ''#b4f9f8'']"

definition example_scheme :: scheme where
  "example_scheme =
     \<lparr>scheme_wallpaper = example_image,
      scheme_alpha = ''100'',
      scheme_special = [(''background'', Some ''#1a1b26''), (''foreground'', Some ''#b4f9f8''),
                        (''cursor'', Some ''#b4f9f8'')],
      scheme_colors =
        [(''color0'', Some ''#1a1b26''), (''color1'', Some ''#414868''),
         (''color2'', Some ''#9ece6a''), (''color3'', Some ''#e0af68''),
         (''color4'', Some ''#565f89''), (''color5'', Some ''#f7768e''),
         (''color6'', Some ''#2ac3de''), (''color7'', Some ''#c0caf5''),
         (''color8'', Some ''#ff9e64''), (''color9'', Some ''#73daca''),
         (''color10'', Some ''#cfc9c2''), (''color11'', Some ''#7aa2f7''),
         (''color12'', Some ''#bb9af7''), (''color13'', Some ''#7dcfff''),
         (''color14'', Some ''#a9b1d6''), (''color15'', Some ''#b4f9f8'')]\<rparr>"

definition example_cache_name :: "string list" where
  "example_cache_name =
     [''/home/user/.cache/wal'', ''schemes'',
      ''_home_user_a_b'' @ [CHR 0x5C] @ ''c_jpg_dark_wal__10000_1.1.0.json'']"

definition example_cache_file :: string where
  "example_cache_file =
     ''/home/user/.cache/wal/schemes/_home_user_a_b'' @ [CHR 0x5C] @
     ''c_jpg_dark_wal__10000_1.1.0.json''"

subsection \<open>What a statement leaves alone\<close>

text \<open>
  \<open>frame r m\<close>: whatever \<open>m\<close> does and however it ends, it changes no list but the one
  at \<open>r\<close>, and that one keeps its length. \<open>ensures Q m\<close>: if \<open>m\<close> returns \<open>x\<close> and leaves
  the store \<open>h'\<close>, then \<open>Q x h'\<close>.
\<close>

definition frame :: "ref \<Rightarrow> ('c, 'a) prog \<Rightarrow> bool" where
  "frame r m \<longleftrightarrow>
     (\<forall>h. case m h of (res, h') \<Rightarrow> (\<forall>r'. r' \<noteq> r \<longrightarrow> h' r' = h r') \<and> length (h' r) = length (h r))"

definition ensures :: "('a \<Rightarrow> 'c store \<Rightarrow> bool) \<Rightarrow> ('c, 'a) prog \<Rightarrow> bool" where
  "ensures Q m \<longleftrightarrow> (\<forall>h x h'. m h = (Inr x, h') \<longrightarrow> Q x h')"

section \<open>Properties\<close>

lemmas hex_defs = hex_to_rgb_def int16_def strip_def is_space_def skip_sign_def
  skip_prefix16_def digit16_def

lemma example_colors_valid: "list_all valid_hex example_colors"
  by (simp add: example_colors_def valid_hex_def hex_defs)

lemma example_colors_length: "length example_colors = 16"
  by (simp add: example_colors_def)


subsection \<open>The matcher\<close>

lemma min_from_first:
  assumes "\<forall>y \<in> set ys. \<exists>k. f y = Inr k"
    and "pre @ best # mid = done" and "f best = Inr bk"
    and "\<forall>c \<in> set pre. \<exists>dc. f c = Inr dc \<and> bk < dc"
    and "\<forall>c \<in> set mid. \<exists>dc. f c = Inr dc \<and> bk \<le> dc"
  shows "\<exists>m pre' post dm. min_from f best bk ys = Inr m \<and> done @ ys = pre' @ m # post \<and>
           f m = Inr dm \<and> (\<forall>c \<in> set pre'. \<exists>dc. f c = Inr dc \<and> dm < dc) \<and>
           (\<forall>c \<in> set post. \<exists>dc. f c = Inr dc \<and> dm \<le> dc)"
  using assms
proof (induction ys arbitrary: best bk pre mid "done")
  case Nil
  then show ?case by fastforce
next
  case (Cons y ys)
  from Cons.prems(1) obtain k where k: "f y = Inr k" by auto
  have ys: "\<forall>y \<in> set ys. \<exists>k. f y = Inr k" using Cons.prems(1) by simp
  show ?case
  proof (cases "k < bk")
    case True
    have a: "(done @ []) @ y # [] = done @ [y]" by simp
    have b: "\<forall>c \<in> set done. \<exists>dc. f c = Inr dc \<and> k < dc"
      using Cons.prems(2-5) True by fastforce
    from Cons.IH[OF ys a k _ _] b
    obtain m pre' post dm where "min_from f y k ys = Inr m" "(done @ [y]) @ ys = pre' @ m # post"
      "f m = Inr dm" "\<forall>c \<in> set pre'. \<exists>dc. f c = Inr dc \<and> dm < dc"
      "\<forall>c \<in> set post. \<exists>dc. f c = Inr dc \<and> dm \<le> dc"
      by auto
    then show ?thesis using k True by auto
  next
    case False
    have a: "pre @ best # (mid @ [y]) = done @ [y]" using Cons.prems(2) by simp
    have b: "\<forall>c \<in> set (mid @ [y]). \<exists>dc. f c = Inr dc \<and> bk \<le> dc"
      using Cons.prems(5) False k by auto
    from Cons.IH[OF ys a Cons.prems(3) Cons.prems(4) b]
    obtain m pre' post dm where "min_from f best bk ys = Inr m" "(done @ [y]) @ ys = pre' @ m # post"
      "f m = Inr dm" "\<forall>c \<in> set pre'. \<exists>dc. f c = Inr dc \<and> dm < dc"
      "\<forall>c \<in> set post. \<exists>dc. f c = Inr dc \<and> dm \<le> dc"
      by auto
    then show ?thesis using k False by auto
  qed
qed

lemma remove1_first: "m \<notin> set pre \<Longrightarrow> remove1 m (pre @ m # post) = pre @ post"
  by (induction pre) auto

lemma min_key_first:
  assumes "\<forall>y \<in> set cs. \<exists>k. d x y = Inr k" and "cs \<noteq> []"
  shows "\<exists>m. min_key (d x) cs = Inr m \<and> first_min_pick d x cs m"
proof -
  obtain c cs' where cs: "cs = c # cs'" using assms(2) by (cases cs) auto
  obtain k where k: "d x c = Inr k" using assms(1) cs by auto
  have "\<forall>y \<in> set cs'. \<exists>k. d x y = Inr k" using assms(1) cs by simp
  from min_from_first[OF this, of "[]" c "[]" "[c]" k] k
  obtain m pre' post dm where m: "min_from (d x) c k cs' = Inr m" "[c] @ cs' = pre' @ m # post"
      "d x m = Inr dm" "\<forall>c \<in> set pre'. \<exists>dc. d x c = Inr dc \<and> dm < dc"
      "\<forall>c \<in> set post. \<exists>dc. d x c = Inr dc \<and> dm \<le> dc"
    by auto
  have "m \<notin> set pre'" using m(3,4) by fastforce
  have split: "cs = pre' @ m # post" using m(2) cs by simp
  have rem: "remove1 m cs = pre' @ post"
    using split remove1_first[OF \<open>m \<notin> set pre'\<close>, of post] by simp
  have mk: "min_key (d x) cs = Inr m" using cs k m(1) by simp
  show ?thesis unfolding first_min_pick_def using mk split rem m(3,4,5) by blast
qed


lemma first_min_pick_mem: "first_min_pick d x cs m \<Longrightarrow> m \<in> set cs"
  unfolding first_min_pick_def by auto

lemma match_loop_greedy:
  assumes "\<forall>x \<in> set refs. \<forall>c \<in> set cs. \<exists>k. d x c = Inr k"
    and "length refs \<le> length cs" and "i + length cs = length out"
  shows "\<exists>picks. match_loop d refs i cs out =
            Inr (take i out @ map Some picks @ drop (i + length refs) out) \<and>
          greedy d refs cs picks"
  using assms
proof (induction refs arbitrary: i cs out)
  case Nil
  then show ?case by (intro exI[of _ "[]"]) simp
next
  case (Cons x rest)
  have ne: "cs \<noteq> []" using Cons.prems(2) by auto
  have "\<forall>y \<in> set cs. \<exists>k. d x y = Inr k" using Cons.prems(1) by simp
  from min_key_first[of cs d x, OF this ne]
  obtain m where m: "min_key (d x) cs = Inr m" "first_min_pick d x cs m" by blast
  have mem: "m \<in> set cs" using m(2) by (rule first_min_pick_mem)
  have i: "i < length out" using Cons.prems(3) ne by (cases cs) auto
  have len: "length (remove1 m cs) = length cs - 1" using mem by (simp add: length_remove1)
  have a: "\<forall>x \<in> set rest. \<forall>c \<in> set (remove1 m cs). \<exists>k. d x c = Inr k"
    using Cons.prems(1) notin_set_remove1 by fastforce
  have b: "length rest \<le> length (remove1 m cs)" using Cons.prems(2) len by simp
  have c: "Suc i + length (remove1 m cs) = length (out[i := Some m])"
    using Cons.prems(3) len ne by (cases cs) auto
  from Cons.IH[OF a b c]
  obtain picks where p: "match_loop d rest (Suc i) (remove1 m cs) (out[i := Some m]) =
      Inr (take (Suc i) (out[i := Some m]) @ map Some picks @
           drop (Suc i + length rest) (out[i := Some m]))"
    "greedy d rest (remove1 m cs) picks" by blast
  have t: "take (Suc i) (out[i := Some m]) = take i out @ [Some m]"
    using i by (simp add: take_Suc_conv_app_nth)
  have dr: "drop (Suc i + length rest) (out[i := Some m]) = drop (i + length (x # rest)) out"
    by simp
  have "match_loop d (x # rest) i cs out =
      Inr (take i out @ map Some (m # picks) @ drop (i + length (x # rest)) out)"
    using m(1) i p(1) t dr by simp
  moreover have "greedy d (x # rest) cs (m # picks)" using m(2) p(2) by simp
  ultimately show ?case by blast
qed

lemma greedy_length: "greedy d refs cs picks \<Longrightarrow> length picks = length refs"
  by (induction d refs cs picks rule: greedy.induct) auto

lemma greedy_mset: "greedy d refs cs picks \<Longrightarrow> mset picks \<subseteq># mset cs"
proof (induction d refs cs picks rule: greedy.induct)
  case (2 d x xs cs m ms)
  then have "m \<in> set cs" and "mset ms \<subseteq># mset (remove1 m cs)"
    by (auto dest: first_min_pick_mem)
  then show ?case by (simp add: insert_subset_eq_iff)
qed auto

lemma greedy_nth:
  "greedy d refs cs picks \<Longrightarrow> i < length refs \<Longrightarrow>
   first_min_pick d (refs ! i) (remaining cs (take i picks)) (picks ! i)"
proof (induction d refs cs picks arbitrary: i rule: greedy.induct)
  case (2 d x xs cs m ms)
  then show ?case by (cases i) auto
qed auto

lemma remove1_subseq: "subseq (remove1 m cs) cs"
  by (induction cs) auto

lemma remaining_subseq: "subseq (remaining cs ms) cs"
proof (induction ms arbitrary: cs)
  case (Cons m ms)
  have "subseq (remaining (remove1 m cs) ms) (remove1 m cs)" by (rule Cons.IH)
  moreover have "subseq (remove1 m cs) cs" by (rule remove1_subseq)
  ultimately show ?case by (auto intro: subseq_order.trans)
qed simp


lemma digits16_error: "digits16 acc prev s = Inl e \<Longrightarrow> e = ValueError"
  by (induction s arbitrary: acc prev) (auto split: if_splits option.splits)

lemma int16_error: "int16 s = Inl e \<Longrightarrow> e = ValueError"
  unfolding int16_def Let_def
  by (auto split: prod.splits list.splits if_splits sum.splits dest: digits16_error
      simp del: digits16.simps)

lemma hex_to_rgb_error: "hex_to_rgb s = Inl e \<Longrightarrow> e = ValueError"
  unfolding hex_to_rgb_def Let_def
  by (auto split: sum.splits dest: int16_error)

lemma color_diff_error: "color_diff x c = Inl e \<Longrightarrow> e = ValueError"
  unfolding color_diff_def
  by (auto split: prod.splits sum.splits dest: hex_to_rgb_error)

lemma color_diff_valid: "valid_hex c \<Longrightarrow> \<exists>k. color_diff x c = Inr k"
  unfolding color_diff_def valid_hex_def
  by (auto split: prod.splits sum.splits)

lemma length_x_colors: "length x_colors = 16"
  by (simp add: x_colors_def x_colors_b_def)

lemma min_from_Inl:
  "min_from f best bk ys = Inl e \<Longrightarrow> \<forall>y e. f y = Inl e \<longrightarrow> e = ValueError \<Longrightarrow> e = ValueError"
  by (induction ys arbitrary: best bk) (auto split: sum.splits if_splits)

lemma min_from_Inr: "min_from f best bk ys = Inr m \<Longrightarrow> m \<in> set (best # ys)"
  by (induction ys arbitrary: best bk) (auto split: sum.splits if_splits)

lemma min_key_Inl:
  "min_key f cs = Inl e \<Longrightarrow> \<forall>y e. f y = Inl e \<longrightarrow> e = ValueError \<Longrightarrow> e = ValueError"
  by (cases cs) (auto split: sum.splits dest: min_from_Inl)

lemma min_key_Inr: "min_key f cs = Inr m \<Longrightarrow> m \<in> set cs"
  by (cases cs) (auto split: sum.splits dest: min_from_Inr)

lemma match_loop_underflow:
  assumes "\<forall>x y e. d x y = Inl e \<longrightarrow> e = ValueError"
    and "length cs < length refs" and "i + length cs = length out"
  shows "match_loop d refs i cs out = Inl ValueError"
  using assms(2,3)
proof (induction refs arbitrary: i cs out)
  case Nil
  then show ?case by simp
next
  case (Cons x rest)
  have k: "\<forall>y e. d x y = Inl e \<longrightarrow> e = ValueError" using assms(1) by blast
  show ?case
  proof (cases "min_key (d x) cs")
    case (Inl e)
    then have "e = ValueError" using min_key_Inl[OF _ k] by blast
    then show ?thesis using Inl by simp
  next
    case (Inr m)
    then have mem: "m \<in> set cs" by (rule min_key_Inr)
    then have i: "i < length out" using Cons.prems(2) by (cases cs) auto
    have len: "length (remove1 m cs) = length cs - 1" using mem by (simp add: length_remove1)
    have a: "length (remove1 m cs) < length rest"
      using Cons.prems(1) len mem by (cases cs) auto
    have b: "Suc i + length (remove1 m cs) = length (out[i := Some m])"
      using Cons.prems(2) len mem by (cases cs) auto
    show ?thesis using Inr i Cons.IH[OF a b] by simp
  qed
qed

text \<open>
  C1. For a list of exactly 16 valid colors \<open>match_colors\<close> returns 16 colors, and for
  each slot \<open>i\<close> of 0..15 in this order, \<open>out ! i\<close> is the first color, in the order of
  the input, of the pool that remains after the picks for the slots before \<open>i\<close> that is at
  minimal \<open>color_diff\<close> from the reference color \<open>i\<close>: colors before it in the pool are
  strictly farther (a tie goes to the first), and the pick is removed from the pool.
\<close>

theorem match_colors_greedy:
  assumes "length colors = 16" and "list_all valid_hex colors"
  shows "\<exists>out. match_colors colors = Inr (map Some out) \<and> length out = 16 \<and>
           (\<forall>i<16. first_min_pick color_diff (x_colors ! i) (remaining colors (take i out)) (out ! i)
               \<and> subseq (remaining colors (take i out)) colors)"
proof -
  have v: "\<forall>x \<in> set x_colors. \<forall>c \<in> set colors. \<exists>k. color_diff x c = Inr k"
    using assms(2) color_diff_valid by (auto simp: list_all_iff)
  have l: "length x_colors \<le> length colors" using assms(1) length_x_colors by simp
  have n: "0 + length colors = length (replicate (length colors) (None :: string option))"
    by simp
  from match_loop_greedy[OF v l n]
  obtain out where out: "match_colors colors = Inr (map Some out)"
      "greedy color_diff x_colors colors out"
    unfolding match_colors_def using assms(1) length_x_colors by auto
  have len: "length out = 16" using greedy_length[OF out(2)] length_x_colors by simp
  have "\<forall>i<16. first_min_pick color_diff (x_colors ! i) (remaining colors (take i out)) (out ! i)"
    using greedy_nth[OF out(2)] length_x_colors by simp
  then show ?thesis using out(1) len remaining_subseq by blast
qed

theorem match_colors_greedy_witness:
  "length example_colors = 16 \<and> list_all valid_hex example_colors \<and>
   (\<exists>out. match_colors example_colors = Inr (map Some out) \<and> length out = 16 \<and>
      (\<forall>i<16. first_min_pick color_diff (x_colors ! i)
                 (remaining example_colors (take i out)) (out ! i) \<and>
               subseq (remaining example_colors (take i out)) example_colors))"
  using match_colors_greedy[OF example_colors_length example_colors_valid]
    example_colors_length example_colors_valid by simp

text \<open>
  C2. For a list of exactly 16 valid colors the output of \<open>match_colors\<close> is a
  permutation of the input: the same multiset of colors. If the 16 input colors are
  pairwise distinct, so are the 16 output slots.
\<close>

theorem match_colors_permutation:
  assumes "length colors = 16" and "list_all valid_hex colors"
  shows "\<exists>out. match_colors colors = Inr (map Some out) \<and> mset out = mset colors \<and>
           (distinct colors \<longrightarrow> distinct out)"
proof -
  have v: "\<forall>x \<in> set x_colors. \<forall>c \<in> set colors. \<exists>k. color_diff x c = Inr k"
    using assms(2) color_diff_valid by (auto simp: list_all_iff)
  have l: "length x_colors \<le> length colors" using assms(1) length_x_colors by simp
  have n: "0 + length colors = length (replicate (length colors) (None :: string option))"
    by simp
  from match_loop_greedy[OF v l n]
  obtain out where out: "match_colors colors = Inr (map Some out)"
      "greedy color_diff x_colors colors out"
    unfolding match_colors_def using assms(1) length_x_colors by auto
  have len: "length out = length colors"
    using greedy_length[OF out(2)] length_x_colors assms(1) by simp
  have sub: "mset out \<subseteq># mset colors" using out(2) by (rule greedy_mset)
  have "size (mset out) = size (mset colors)" using len by simp
  with sub have eq: "mset out = mset colors"
    using mset_subset_size subset_mset.less_le by fastforce
  then have "distinct colors \<longrightarrow> distinct out" using mset_eq_imp_distinct_iff by blast
  then show ?thesis using out(1) eq by blast
qed

theorem match_colors_permutation_witness:
  "length example_colors = 16 \<and> list_all valid_hex example_colors \<and>
   (\<exists>out. match_colors example_colors = Inr (map Some out) \<and>
      mset out = mset example_colors \<and> distinct out)"
proof -
  have d: "distinct example_colors" by (simp add: example_colors_def)
  show ?thesis
    using match_colors_permutation[OF example_colors_length example_colors_valid] d
      example_colors_length example_colors_valid by simp
qed

text \<open>
  C6. For every list of fewer than 16 colors \<open>match_colors\<close> raises: \<^verbatim>\<open>min\<close> is called
  on the emptied pool and raises ValueError (an invalid color raises ValueError before
  that). No list is returned, so no color is repeated to fill the slots.
\<close>

theorem match_colors_underflow:
  "length colors < 16 \<Longrightarrow> match_colors colors = Inl ValueError"
  unfolding match_colors_def
  using match_loop_underflow[of color_diff colors x_colors 0 "replicate (length colors) None"]
    color_diff_error length_x_colors
  by auto


theorem match_colors_underflow_witness:
  "length [''#000000'', ''#ffffff''] < 16 \<and>
   match_colors [''#000000'', ''#ffffff''] = Inl ValueError"
  using match_colors_underflow[of "[''#000000'', ''#ffffff'']"] by simp

subsection \<open>The store\<close>

lemmas prog_defs = seq_def ret_def call_def getitem_def setitem_def

lemma frame_ret: "frame r (ret x)"
  by (simp add: frame_def ret_def)

lemma frame_call: "frame r (call c)"
  by (simp add: frame_def call_def)

lemma frame_getitem: "frame r (getitem r i)"
  by (simp add: frame_def getitem_def)

lemma frame_setitem: "frame r (setitem r i v)"
  by (simp add: frame_def setitem_def)

lemma frame_seq: "frame r m \<Longrightarrow> (\<And>x. frame r (f x)) \<Longrightarrow> frame r (seq m f)"
  unfolding frame_def seq_def
proof (intro allI)
  fix h
  assume m: "\<forall>h. case m h of (res, h') \<Rightarrow> (\<forall>r'. r' \<noteq> r \<longrightarrow> h' r' = h r') \<and> length (h' r) = length (h r)"
    and f: "\<And>x. \<forall>h. case f x h of (res, h') \<Rightarrow> (\<forall>r'. r' \<noteq> r \<longrightarrow> h' r' = h r') \<and> length (h' r) = length (h r)"
  obtain res h1 where mh: "m h = (res, h1)" by (cases "m h")
  have m1: "(\<forall>r'. r' \<noteq> r \<longrightarrow> h1 r' = h r') \<and> length (h1 r) = length (h r)"
    using m[rule_format, of h] mh by simp
  show "case (case m h of (Inl e, h') \<Rightarrow> (Inl e, h') | (Inr x, h') \<Rightarrow> f x h') of
          (res, h') \<Rightarrow> (\<forall>r'. r' \<noteq> r \<longrightarrow> h' r' = h r') \<and> length (h' r) = length (h r)"
  proof (cases res)
    case (Inl e)
    then show ?thesis using mh m1 by simp
  next
    case (Inr x)
    obtain res2 h2 where fh: "f x h1 = (res2, h2)" by (cases "f x h1")
    then show ?thesis using f[of x, rule_format, of h1] Inr mh m1 by simp
  qed
qed

lemma frame_adjust_loop: "frame r (adjust_loop u xs)"
proof (induction xs)
  case Nil
  show ?case by (simp add: frame_ret)
next
  case (Cons x xs)
  show ?case
    unfolding adjust_loop.simps
    by (rule frame_seq, rule frame_call, rule frame_seq, rule frame_call, rule Cons.IH)
qed

lemma frame_adjust_all: "frame r (\<lambda>h. adjust_loop u (h colors) h)"
proof (unfold frame_def, intro allI)
  fix h
  show "case adjust_loop u (h colors) h of
          (res, h') \<Rightarrow> (\<forall>r'. r' \<noteq> r \<longrightarrow> h' r' = h r') \<and> length (h' r) = length (h r)"
    using frame_adjust_loop[of r u "h colors", unfolded frame_def] by (rule spec)
qed

lemma frame_saturate_loop: "frame r (saturate_loop u r amount is)"
proof (induction "is")
  case Nil
  show ?case by (simp add: frame_ret)
next
  case (Cons i rest)
  have "frame r (seq (getitem r i) (\<lambda>c.
        seq (call (py_float amount)) (\<lambda>a.
        seq (call (saturate_color u c a)) (\<lambda>v.
        seq (setitem r i v) (\<lambda>_.
        saturate_loop u r amount rest)))))"
    by (intro frame_seq frame_getitem frame_call frame_setitem Cons.IH)
  then show ?case using Cons.IH by simp
qed

lemma frame_saturate_all: "frame r (\<lambda>h. saturate_loop u r amount [0..<length (h r)] h)"
proof (unfold frame_def, intro allI)
  fix h
  show "case saturate_loop u r amount [0..<length (h r)] h of
          (res, h') \<Rightarrow> (\<forall>r'. r' \<noteq> r \<longrightarrow> h' r' = h r') \<and> length (h' r) = length (h r)"
    using frame_saturate_loop[of r u amount "[0..<length (h r)]", unfolded frame_def]
    by (rule spec)
qed

lemma frame_generic_adjust: "frame r (generic_adjust u r light)"
  unfolding generic_adjust_def
  by (cases light)
    (simp_all only: if_True if_False,
      (intro frame_seq frame_adjust_all frame_call frame_ret frame_getitem frame_setitem)+)

lemma frame_saturate_colors: "frame r (saturate_colors u r amount)"
proof -
  have a: "frame r (if le_one a then
            seq (\<lambda>h. saturate_loop u r amount [0..<length (h r)] h) (\<lambda>_. ret r)
          else ret r)" for a
    by (cases "le_one a") (simp_all add: frame_seq frame_saturate_all frame_ret)
  show ?thesis
    unfolding saturate_colors_def
    by (cases "truthy amount") (simp_all add: frame_seq frame_call frame_ret a)
qed

subsection \<open>The reference palette\<close>

text \<open>
  C7. The reference palette has 16 entries, but not in the order of the claim: index 8
  holds bright red \<open>(255, 0, 0)\<close>, the bright colors follow, and bright black (gray)
  \<open>(127, 127, 127)\<close> is at index 14, before bright white at index 15.
\<close>

theorem x_colors_b_order:
  "length x_colors_b = 16 \<and> x_colors_b ! 8 = (255, 0, 0) \<and> x_colors_b ! 14 = (127, 127, 127) \<and>
   x_colors_b ! 15 = (255, 255, 255)"
  by (simp add: x_colors_b_def)


subsection \<open>generic_adjust\<close>

text \<open>
  C5. In light mode, on the example store and with the free interpretation of the color
  operations: slot 0 is the lightened (0.95) original slot 0, slot 7 that color darkened
  by 0.75, slot 8 that color darkened by 0.25, slot 15 equals slot 7. Every other slot
  holds its original color: the loop over the list saturates and darkens nothing.
\<close>

theorem generic_adjust_light_run:
  "generic_adjust sym_util 0 True example_store =
     (Inr 0, example_store(0 :=
        [Lightened (Col ''#1a1b26'') (Fin (95 / 100)),
         Col ''#f7768e'', Col ''#9ece6a'', Col ''#e0af68'', Col ''#7aa2f7'', Col ''#bb9af7'',
         Col ''#7dcfff'',
         Darkened (Lightened (Col ''#1a1b26'') (Fin (95 / 100))) (Fin (75 / 100)),
         Darkened (Lightened (Col ''#1a1b26'') (Fin (95 / 100))) (Fin (25 / 100)),
         Col ''#ff9e64'', Col ''#73daca'', Col ''#b4f9f8'', Col ''#2ac3de'', Col ''#c0caf5'',
         Col ''#565f89'',
         Darkened (Lightened (Col ''#1a1b26'') (Fin (95 / 100))) (Fin (75 / 100))]))"
  by (simp add: generic_adjust_def example_store_def example_colors_def sym_util_def prog_defs)


subsection \<open>saturate_colors\<close>

lemma saturate_loop_keeps:
  "saturate_loop u r amount is h = (res, h') \<Longrightarrow> j \<in> set [0, 7, 8, 15] \<or> j \<notin> set is \<Longrightarrow>
   h' r ! j = h r ! j"
proof (induction "is" arbitrary: h)
  case Nil
  then show ?case by (simp add: ret_def)
next
  case (Cons i rest)
  show ?case
  proof (cases "i \<in> set [0, 7, 8, 15]")
    case True
    then have "saturate_loop u r amount rest h = (res, h')" using Cons.prems(1) by simp
    moreover have "j \<in> set [0, 7, 8, 15] \<or> j \<notin> set rest" using Cons.prems(2) by auto
    ultimately show ?thesis by (rule Cons.IH)
  next
    case False
    have ji: "j \<noteq> i" using False Cons.prems(2) by auto
    have jr: "j \<in> set [0, 7, 8, 15] \<or> j \<notin> set rest" using Cons.prems(2) by auto
    show ?thesis
    proof (cases "i < length (h r)")
      case oob: False
      then have "h' = h" using Cons.prems(1) False by (simp add: prog_defs)
      then show ?thesis by simp
    next
      case inb: True
      show ?thesis
      proof (cases "py_float amount")
        case (Inl e)
        then have "h' = h" using Cons.prems(1) False inb by (simp add: prog_defs)
        then show ?thesis by simp
      next
        case (Inr a)
        show ?thesis
        proof (cases "saturate_color u (h r ! i) a")
          case (Inl e)
          then have "h' = h" using Cons.prems(1) False inb Inr by (simp add: prog_defs)
          then show ?thesis by simp
        next
          case v: (Inr v)
          have run: "saturate_loop u r amount rest (h(r := (h r)[i := v])) = (res, h')"
            using Cons.prems(1) False inb Inr v by (simp add: prog_defs)
          have "h' r ! j = (h(r := (h r)[i := v])) r ! j" using run jr by (rule Cons.IH)
          then show ?thesis using ji by simp
        qed
      qed
    qed
  qed
qed

lemma saturate_loop_run:
  assumes "py_float amount = Inr a" and "distinct is" and "\<forall>i \<in> set is. i < length (h r)"
    and "\<forall>i \<in> set is. i \<notin> set [0, 7, 8, 15] \<longrightarrow> saturate_color u (h r ! i) a = Inr (g i)"
  shows "saturate_loop u r amount is h =
           (Inr (), h(r := map (\<lambda>j. if j \<in> set is \<and> j \<notin> set [0, 7, 8, 15] then g j else h r ! j)
                              [0..<length (h r)]))"
  using assms(2-4)
proof (induction "is" arbitrary: h)
  case Nil
  have "map (\<lambda>j. h r ! j) [0..<length (h r)] = h r" by (rule map_nth)
  then show ?case by (simp add: ret_def)
next
  case (Cons i rest)
  have d: "distinct rest" and ni: "i \<notin> set rest" using Cons.prems(1) by auto
  have inb: "i < length (h r)" using Cons.prems(2) by simp
  show ?case
  proof (cases "i \<in> set [0, 7, 8, 15]")
    case True
    have b: "\<forall>i \<in> set rest. i < length (h r)" using Cons.prems(2) by simp
    have c: "\<forall>i \<in> set rest. i \<notin> set [0, 7, 8, 15] \<longrightarrow> saturate_color u (h r ! i) a = Inr (g i)"
      using Cons.prems(3) by simp
    have eq: "map (\<lambda>j. if j \<in> set rest \<and> j \<notin> set [0, 7, 8, 15] then g j else h r ! j) [0..<length (h r)]
        = map (\<lambda>j. if j \<in> set (i # rest) \<and> j \<notin> set [0, 7, 8, 15] then g j else h r ! j) [0..<length (h r)]"
      using True by (intro map_cong) auto
    have ih: "saturate_loop u r amount rest h =
        (Inr (), h(r := map (\<lambda>j. if j \<in> set rest \<and> j \<notin> set [0, 7, 8, 15] then g j else h r ! j)
                          [0..<length (h r)]))"
      by (rule Cons.IH[of h, OF d b c])
    have step: "saturate_loop u r amount (i # rest) h = saturate_loop u r amount rest h"
      using True by simp
    show ?thesis using ih unfolding eq step .
  next
    case False
    have v: "saturate_color u (h r ! i) a = Inr (g i)" using Cons.prems(3) False by simp
    let ?h1 = "h(r := (h r)[i := g i])"
    have b: "\<forall>k \<in> set rest. k < length (?h1 r)" using Cons.prems(2) by simp
    have c: "\<forall>k \<in> set rest. k \<notin> set [0, 7, 8, 15] \<longrightarrow> saturate_color u (?h1 r ! k) a = Inr (g k)"
    proof (intro ballI impI)
      fix k assume k: "k \<in> set rest" "k \<notin> set [0, 7, 8, 15]"
      then have "k \<noteq> i" using ni by auto
      then have "?h1 r ! k = h r ! k" by simp
      moreover have "saturate_color u (h r ! k) a = Inr (g k)" using Cons.prems(3) k by simp
      ultimately show "saturate_color u (?h1 r ! k) a = Inr (g k)" by simp
    qed
    have step: "saturate_loop u r amount (i # rest) h = saturate_loop u r amount rest ?h1"
      using False inb v assms(1) by (simp add: prog_defs)
    have eq: "map (\<lambda>j. if j \<in> set rest \<and> j \<notin> set [0, 7, 8, 15] then g j else ?h1 r ! j) [0..<length (?h1 r)]
        = map (\<lambda>j. if j \<in> set (i # rest) \<and> j \<notin> set [0, 7, 8, 15] then g j else h r ! j) [0..<length (h r)]"
      using False inb by (auto intro!: map_cong simp: nth_list_update)
    have ih: "saturate_loop u r amount rest ?h1 =
        (Inr (), ?h1(r := map (\<lambda>j. if j \<in> set rest \<and> j \<notin> set [0, 7, 8, 15] then g j else ?h1 r ! j)
                          [0..<length (?h1 r)]))"
      by (rule Cons.IH[of ?h1, OF d b c])
    have upd: "?h1(r := xs) = h(r := xs)" for xs by simp
    show ?thesis using ih unfolding eq step upd .
  qed
qed


lemma ensures_seq: "(\<And>x. ensures Q (f x)) \<Longrightarrow> ensures Q (seq m f)"
  unfolding ensures_def seq_def
  by (auto split: prod.splits sum.splits)

lemma ensures_copy:
  "ensures (\<lambda>x h'. x = r \<and> 16 \<le> length (h' r) \<and> h' r ! 15 = h' r ! 7)
     (seq (getitem r 7) (\<lambda>v. seq (setitem r 15 v) (\<lambda>_. ret r)))"
  unfolding ensures_def
  by (auto simp: prog_defs split: if_splits)

lemma ensures_generic_adjust:
  "ensures (\<lambda>x h'. x = r \<and> 16 \<le> length (h' r) \<and> h' r ! 15 = h' r ! 7) (generic_adjust u r light)"
  unfolding generic_adjust_def
  by (cases light) (simp_all only: if_True if_False, (intro ensures_seq ensures_copy)+)

lemma saturate_colors_noop:
  "\<not> truthy amount \<or> (\<exists>a. py_float amount = Inr a \<and> \<not> le_one a) \<Longrightarrow>
   saturate_colors u r amount h = (Inr r, h)"
  by (auto simp: saturate_colors_def prog_defs)

lemma saturate_colors_loop:
  "truthy amount \<Longrightarrow> py_float amount = Inr a \<Longrightarrow> le_one a \<Longrightarrow>
   saturate_colors u r amount h =
     (case saturate_loop u r amount [0..<length (h r)] h of
        (Inl e, h') \<Rightarrow> (Inl e, h') | (Inr _, h') \<Rightarrow> (Inr r, h'))"
  by (simp add: saturate_colors_def prog_defs)

lemma saturate_colors_keeps:
  assumes "j \<in> set [0, 7, 8, 15]"
  shows "snd (saturate_colors u r amount h) r ! j = h r ! j"
proof (cases "truthy amount \<and> (\<exists>a. py_float amount = Inr a \<and> le_one a)")
  case True
  then obtain a where a: "truthy amount" "py_float amount = Inr a" "le_one a" by blast
  obtain res h' where run: "saturate_loop u r amount [0..<length (h r)] h = (res, h')"
    by (cases "saturate_loop u r amount [0..<length (h r)] h")
  have "h' r ! j = h r ! j" using run assms saturate_loop_keeps by blast
  moreover have "snd (saturate_colors u r amount h) = h'"
    using saturate_colors_loop[OF a, of u r h] run by (cases res) simp_all
  ultimately show ?thesis by simp
next
  case False
  show ?thesis
  proof (cases "truthy amount")
    case nt: False
    then show ?thesis using saturate_colors_noop[of amount u r h] by simp
  next
    case t: True
    show ?thesis
    proof (cases "py_float amount")
      case (Inl e)
      then show ?thesis using t by (simp add: saturate_colors_def prog_defs)
    next
      case (Inr a)
      then have "\<not> le_one a" using False t by simp
      then show ?thesis using saturate_colors_noop[of amount u r h] Inr by simp
    qed
  qed
qed

lemmas float_defs = float_of_str_def strip_def is_space_def skip_sign_def decimal_def
  exponent10_def is_digit_def lower_def

lemma float_zero: "py_float (AStr ''0'') = Inr (Fin 0)"
  by (simp add: float_defs)

lemma float_half: "py_float (AStr ''0.5'') = Inr (Fin (1 / 2))"
  by (simp add: float_defs)


lemma length_example_store: "length (example_store 0) = 16"
  by (simp add: example_store_def example_colors_def)

text \<open>
  C8, as the code has it. For a list of 16 colors: slots 0, 7, 8 and 15 are left as they
  are for every amount, however the call ends. The call changes nothing when the amount
  is falsy (\<^verbatim>\<open>None\<close>, the empty string, the number zero) or when its float value is not
  \<open>\<le> 1.0\<close>. For every other amount whose float value \<open>a\<close> exists, that is for every
  truthy amount with \<open>a \<le> 1.0\<close>, each slot outside 0, 7, 8, 15 becomes
  \<^verbatim>\<open>util.saturate_color(slot, a)\<close>, if these calls return. That covers the amounts in
  \<open>(0, 1]\<close>, and also negative amounts and non-empty strings that denote zero.
\<close>

theorem saturate_colors_slots:
  assumes "length (h r) = 16"
  shows "(\<forall>i \<in> {0, 7, 8, 15}. snd (saturate_colors u r amount h) r ! i = h r ! i) \<and>
         (\<not> truthy amount \<longrightarrow> saturate_colors u r amount h = (Inr r, h)) \<and>
         (\<forall>a. truthy amount \<and> py_float amount = Inr a \<and> \<not> le_one a \<longrightarrow>
              saturate_colors u r amount h = (Inr r, h)) \<and>
         (\<forall>a g. truthy amount \<and> py_float amount = Inr a \<and> le_one a \<and>
                (\<forall>i<16. i \<notin> {0, 7, 8, 15} \<longrightarrow> saturate_color u (h r ! i) a = Inr (g i)) \<longrightarrow>
              saturate_colors u r amount h =
                (Inr r, h(r := map (\<lambda>i. if i \<in> {0, 7, 8, 15} then h r ! i else g i) [0..<16])))"
proof (intro conjI allI impI ballI)
  fix i :: nat assume "i \<in> {0, 7, 8, 15}"
  then have "i \<in> set [0, 7, 8, 15]" by simp
  then show "snd (saturate_colors u r amount h) r ! i = h r ! i" by (rule saturate_colors_keeps)
next
  assume "\<not> truthy amount"
  then show "saturate_colors u r amount h = (Inr r, h)" using saturate_colors_noop by blast
next
  fix a assume "truthy amount \<and> py_float amount = Inr a \<and> \<not> le_one a"
  then show "saturate_colors u r amount h = (Inr r, h)" using saturate_colors_noop by blast
next
  fix a g
  assume p: "truthy amount \<and> py_float amount = Inr a \<and> le_one a \<and>
    (\<forall>i<16. i \<notin> {0, 7, 8, 15} \<longrightarrow> saturate_color u (h r ! i) a = Inr (g i))"
  have d: "distinct [0..<length (h r)]" by simp
  have b: "\<forall>i \<in> set [0..<length (h r)]. i < length (h r)" by simp
  have c: "\<forall>i \<in> set [0..<length (h r)]. i \<notin> set [0, 7, 8, 15] \<longrightarrow>
      saturate_color u (h r ! i) a = Inr (g i)"
    using p assms by simp
  have run: "saturate_loop u r amount [0..<length (h r)] h =
      (Inr (), h(r := map (\<lambda>j. if j \<in> set [0..<length (h r)] \<and> j \<notin> set [0, 7, 8, 15]
                                then g j else h r ! j) [0..<length (h r)]))"
  proof -
    have pf: "py_float amount = Inr a" using p by simp
    show ?thesis
      by (rule saturate_loop_run[of amount a "[0..<length (h r)]" h r u g, OF pf d b c])
  qed
  have eq: "map (\<lambda>j. if j \<in> set [0..<length (h r)] \<and> j \<notin> set [0, 7, 8, 15]
                                then g j else h r ! j) [0..<length (h r)]
      = map (\<lambda>i. if i \<in> {0, 7, 8, 15} then h r ! i else g i) [0..<16]"
    unfolding assms by (intro map_cong) auto
  show "saturate_colors u r amount h =
      (Inr r, h(r := map (\<lambda>i. if i \<in> {0, 7, 8, 15} then h r ! i else g i) [0..<16]))"
    using saturate_colors_loop[of amount a u r h] p run unfolding eq by simp
qed

theorem saturate_colors_slots_witness:
  "length (example_store 0) = 16 \<and>
   snd (saturate_colors sym_util 0 (AStr ''0.5'') example_store) 0 ! 7 = Col ''#a9b1d6'' \<and>
   saturate_colors sym_util 0 ANone example_store = (Inr 0, example_store) \<and>
   saturate_colors sym_util 0 (AStr ''1.5'') example_store = (Inr 0, example_store) \<and>
   saturate_colors sym_util 0 (AStr ''0.5'') example_store =
     (Inr 0, example_store(0 :=
        map (\<lambda>i. if i \<in> {0, 7, 8, 15} then example_store 0 ! i
                  else Saturated (example_store 0 ! i) (Fin (1 / 2))) [0..<16]))"
proof -
  have f: "py_float (AStr ''0.5'') = Inr (Fin (1 / 2))" by (rule float_half)
  have g: "py_float (AStr ''1.5'') = Inr (Fin (3 / 2))" by (simp add: float_defs)
  have s7: "example_store 0 ! 7 = Col ''#a9b1d6''"
    by (simp add: example_store_def example_colors_def)
  have sat: "saturate_color sym_util c a = Inr (Saturated c a)" for c a
    by (simp add: sym_util_def)
  note t = saturate_colors_slots[where h = example_store and r = 0 and u = sym_util,
      OF length_example_store]
  have a: "snd (saturate_colors sym_util 0 (AStr ''0.5'') example_store) 0 ! 7 = Col ''#a9b1d6''"
    using t[where amount = "AStr ''0.5''"] s7 by simp
  have b: "saturate_colors sym_util 0 ANone example_store = (Inr 0, example_store)"
    using t[where amount = ANone] by simp
  have c: "saturate_colors sym_util 0 (AStr ''1.5'') example_store = (Inr 0, example_store)"
    using t[where amount = "AStr ''1.5''"] g by simp
  have d: "saturate_colors sym_util 0 (AStr ''0.5'') example_store =
     (Inr 0, example_store(0 :=
        map (\<lambda>i. if i \<in> {0, 7, 8, 15} then example_store 0 ! i
                  else Saturated (example_store 0 ! i) (Fin (1 / 2))) [0..<16]))"
    using t[where amount = "AStr ''0.5''", THEN conjunct2, THEN conjunct2, THEN conjunct2, rule_format,
        of "Fin (1 / 2)" "\<lambda>i. Saturated (example_store 0 ! i) (Fin (1 / 2))"] f sat
    by simp
  show ?thesis using length_example_store a b c d by simp
qed

text \<open>
  The claim C8 as stated fails for the amount \<^verbatim>\<open>"0"\<close>, a string that is truthy and whose
  float value is zero: the call is not a no-op.
\<close>

theorem saturate_colors_zero_counterexample:
  "py_float (AStr ''0'') = Inr (Fin 0) \<and>
   saturate_colors sym_util 0 (AStr ''0'') example_store \<noteq> (Inr 0, example_store)"
proof -
  have f: "py_float (AStr ''0'') = Inr (Fin 0)" by (rule float_zero)
  have "snd (saturate_colors sym_util 0 (AStr ''0'') example_store) 0 ! 1 =
        Saturated (Col ''#f7768e'') (Fin 0)"
    using f by (simp add: saturate_colors_def prog_defs example_store_def example_colors_def
        sym_util_def upt_rec)
  moreover have "example_store 0 ! 1 = Col ''#f7768e''"
    by (simp add: example_store_def example_colors_def)
  ultimately have "snd (saturate_colors sym_util 0 (AStr ''0'') example_store) \<noteq> example_store"
    by auto
  then show ?thesis using f by auto
qed

subsection \<open>Mutation in place\<close>

lemma adjust_loop_ok:
  "\<forall>c \<in> set xs. \<exists>s d. saturate_color u c (Fin (60 / 100)) = Inr s \<and>
      darken_color u s (Fin (5 / 10)) = Inr d \<Longrightarrow>
   adjust_loop u xs h = (Inr (), h)"
proof (induction xs)
  case Nil
  show ?case by (simp add: ret_def)
next
  case (Cons x xs)
  then obtain s d where "saturate_color u x (Fin (60 / 100)) = Inr s"
    "darken_color u s (Fin (5 / 10)) = Inr d" by auto
  moreover have "adjust_loop u xs h = (Inr (), h)" using Cons by simp
  ultimately show ?case by (simp add: seq_def call_def)
qed

lemma generic_adjust_dark:
  assumes "16 \<le> length (h r)"
    and "darken_color u (h r ! 0) (Fin (80 / 100)) = Inr c0"
    and "lighten_color u c0 (Fin (75 / 100)) = Inr c7"
    and "lighten_color u c0 (Fin (25 / 100)) = Inr c8"
  shows "generic_adjust u r False h = (Inr r, h(r := (h r)[0 := c0, 7 := c7, 8 := c8, 15 := c7]))"
proof -
  have ne: "h r \<noteq> []" using assms(1) by auto
  show ?thesis using assms ne by (simp add: generic_adjust_def prog_defs)
qed

lemma generic_adjust_light:
  assumes "16 \<le> length (h r)"
    and "\<forall>c \<in> set (h r). \<exists>s d. saturate_color u c (Fin (60 / 100)) = Inr s \<and>
           darken_color u s (Fin (5 / 10)) = Inr d"
    and "lighten_color u (h r ! 0) (Fin (95 / 100)) = Inr c0"
    and "darken_color u c0 (Fin (75 / 100)) = Inr c7"
    and "darken_color u c0 (Fin (25 / 100)) = Inr c8"
  shows "generic_adjust u r True h = (Inr r, h(r := (h r)[0 := c0, 7 := c7, 8 := c8, 15 := c7]))"
proof -
  have l: "adjust_loop u (h r) h = (Inr (), h)" using assms(2) by (rule adjust_loop_ok)
  have ne: "h r \<noteq> []" using assms(1) by auto
  show ?thesis using assms(1,3,4,5) l ne by (simp add: generic_adjust_def prog_defs)
qed

lemma saturate_colors_run:
  assumes "truthy amount" and "py_float amount = Inr a" and "le_one a"
    and "\<forall>i<length (h r). i \<notin> {0, 7, 8, 15} \<longrightarrow> saturate_color u (h r ! i) a = Inr (g i)"
  shows "saturate_colors u r amount h =
      (Inr r, h(r := map (\<lambda>i. if i \<in> {0, 7, 8, 15} then h r ! i else g i) [0..<length (h r)]))"
proof -
  have d: "distinct [0..<length (h r)]" by simp
  have b: "\<forall>i \<in> set [0..<length (h r)]. i < length (h r)" by simp
  have c: "\<forall>i \<in> set [0..<length (h r)]. i \<notin> set [0, 7, 8, 15] \<longrightarrow>
      saturate_color u (h r ! i) a = Inr (g i)"
    using assms(4) by simp
  have run: "saturate_loop u r amount [0..<length (h r)] h =
      (Inr (), h(r := map (\<lambda>j. if j \<in> set [0..<length (h r)] \<and> j \<notin> set [0, 7, 8, 15]
                                then g j else h r ! j) [0..<length (h r)]))"
    by (rule saturate_loop_run[of amount a "[0..<length (h r)]" h r u g, OF assms(2) d b c])
  have eq: "map (\<lambda>j. if j \<in> set [0..<length (h r)] \<and> j \<notin> set [0, 7, 8, 15]
                                then g j else h r ! j) [0..<length (h r)]
      = map (\<lambda>i. if i \<in> {0, 7, 8, 15} then h r ! i else g i) [0..<length (h r)]"
    by (intro map_cong) auto
  show ?thesis
    using saturate_colors_loop[OF assms(1,2,3), of u r h] run unfolding eq by simp
qed

text \<open>
  C10. \<open>saturate_colors\<close> and \<open>generic_adjust\<close> write into the list they are given and
  return the reference they were given. They change no other list, and the list keeps
  its length. When its calls of the color operations return, \<open>saturate_colors\<close> with a
  truthy amount of float value \<open>a \<le> 1.0\<close> leaves, at that reference, the list with every
  slot outside 0, 7, 8, 15 replaced by its saturated color; \<open>generic_adjust\<close> leaves, at
  that reference, the list with slots 0, 7, 8 and 15 overwritten, in dark and in light
  mode. On the path of \<open>saturate_colors\<close> that changes nothing (falsy amount, or float
  value not \<open>\<le> 1.0\<close>) the same reference is returned and the store is the one before
  the call.
\<close>

theorem adjust_in_place:
  "frame r (saturate_colors u r amount) \<and>
   ensures (\<lambda>x h'. x = r) (saturate_colors u r amount) \<and>
   frame r (generic_adjust u r light) \<and>
   ensures (\<lambda>x h'. x = r \<and> 16 \<le> length (h' r) \<and> h' r ! 15 = h' r ! 7) (generic_adjust u r light) \<and>
   (\<not> truthy amount \<or> (\<exists>a. py_float amount = Inr a \<and> \<not> le_one a) \<longrightarrow>
      saturate_colors u r amount h = (Inr r, h)) \<and>
   (\<forall>a g. truthy amount \<and> py_float amount = Inr a \<and> le_one a \<and>
      (\<forall>i<length (h r). i \<notin> {0, 7, 8, 15} \<longrightarrow> saturate_color u (h r ! i) a = Inr (g i)) \<longrightarrow>
      saturate_colors u r amount h =
        (Inr r, h(r := map (\<lambda>i. if i \<in> {0, 7, 8, 15} then h r ! i else g i)
                          [0..<length (h r)]))) \<and>
   (\<forall>c0 c7 c8. 16 \<le> length (h r) \<and>
      darken_color u (h r ! 0) (Fin (80 / 100)) = Inr c0 \<and>
      lighten_color u c0 (Fin (75 / 100)) = Inr c7 \<and>
      lighten_color u c0 (Fin (25 / 100)) = Inr c8 \<longrightarrow>
      generic_adjust u r False h =
        (Inr r, h(r := (h r)[0 := c0, 7 := c7, 8 := c8, 15 := c7]))) \<and>
   (\<forall>c0 c7 c8. 16 \<le> length (h r) \<and>
      (\<forall>c \<in> set (h r). \<exists>s d. saturate_color u c (Fin (60 / 100)) = Inr s \<and>
           darken_color u s (Fin (5 / 10)) = Inr d) \<and>
      lighten_color u (h r ! 0) (Fin (95 / 100)) = Inr c0 \<and>
      darken_color u c0 (Fin (75 / 100)) = Inr c7 \<and>
      darken_color u c0 (Fin (25 / 100)) = Inr c8 \<longrightarrow>
      generic_adjust u r True h =
        (Inr r, h(r := (h r)[0 := c0, 7 := c7, 8 := c8, 15 := c7])))"
proof -
  have e: "ensures (\<lambda>x h'. x = r) (ret r)" by (simp add: ensures_def ret_def)
  have a: "ensures (\<lambda>x h'. x = r)
            (if le_one a then
               seq (\<lambda>h. saturate_loop u r amount [0..<length (h r)] h) (\<lambda>_. ret r)
             else ret r)" for a
    by (cases "le_one a") (auto intro!: ensures_seq e)
  have es: "ensures (\<lambda>x h'. x = r) (saturate_colors u r amount)"
    unfolding saturate_colors_def
    by (cases "truthy amount") (auto intro!: ensures_seq e a)
  have run: "\<forall>a g. truthy amount \<and> py_float amount = Inr a \<and> le_one a \<and>
      (\<forall>i<length (h r). i \<notin> {0, 7, 8, 15} \<longrightarrow> saturate_color u (h r ! i) a = Inr (g i)) \<longrightarrow>
      saturate_colors u r amount h =
        (Inr r, h(r := map (\<lambda>i. if i \<in> {0, 7, 8, 15} then h r ! i else g i)
                          [0..<length (h r)]))"
    using saturate_colors_run[of amount _ h r u] by blast
  have dark: "\<forall>c0 c7 c8. 16 \<le> length (h r) \<and>
      darken_color u (h r ! 0) (Fin (80 / 100)) = Inr c0 \<and>
      lighten_color u c0 (Fin (75 / 100)) = Inr c7 \<and>
      lighten_color u c0 (Fin (25 / 100)) = Inr c8 \<longrightarrow>
      generic_adjust u r False h =
        (Inr r, h(r := (h r)[0 := c0, 7 := c7, 8 := c8, 15 := c7]))"
    using generic_adjust_dark[of h r u] by blast
  have light: "\<forall>c0 c7 c8. 16 \<le> length (h r) \<and>
      (\<forall>c \<in> set (h r). \<exists>s d. saturate_color u c (Fin (60 / 100)) = Inr s \<and>
           darken_color u s (Fin (5 / 10)) = Inr d) \<and>
      lighten_color u (h r ! 0) (Fin (95 / 100)) = Inr c0 \<and>
      darken_color u c0 (Fin (75 / 100)) = Inr c7 \<and>
      darken_color u c0 (Fin (25 / 100)) = Inr c8 \<longrightarrow>
      generic_adjust u r True h =
        (Inr r, h(r := (h r)[0 := c0, 7 := c7, 8 := c8, 15 := c7]))"
    using generic_adjust_light[of h r u] by blast
  have noop: "\<not> truthy amount \<or> (\<exists>a. py_float amount = Inr a \<and> \<not> le_one a) \<longrightarrow>
      saturate_colors u r amount h = (Inr r, h)"
    using saturate_colors_noop by blast
  show ?thesis
    by (intro conjI) (rule frame_saturate_colors es frame_generic_adjust ensures_generic_adjust
        noop run dark light)+
qed

theorem adjust_in_place_witness:
  "frame 0 (saturate_colors sym_util 0 (AStr ''0.5'')) \<and>
   ensures (\<lambda>x h'. x = 0) (saturate_colors sym_util 0 (AStr ''0.5'')) \<and>
   frame 0 (generic_adjust sym_util 0 False) \<and>
   ensures (\<lambda>x h'. x = 0 \<and> 16 \<le> length (h' 0) \<and> h' 0 ! 15 = h' 0 ! 7)
     (generic_adjust sym_util 0 False) \<and>
   saturate_colors sym_util 0 (AStr []) example_store = (Inr 0, example_store) \<and>
   saturate_colors sym_util 0 (AStr ''0.5'') example_store =
     (Inr 0, example_store(0 :=
        map (\<lambda>i. if i \<in> {0, 7, 8, 15} then example_store 0 ! i
                  else Saturated (example_store 0 ! i) (Fin (1 / 2)))
            [0..<length (example_store 0)])) \<and>
   generic_adjust sym_util 0 False example_store =
     (Inr 0, example_store(0 := (example_store 0)
        [0 := Darkened (Col ''#1a1b26'') (Fin (80 / 100)),
         7 := Lightened (Darkened (Col ''#1a1b26'') (Fin (80 / 100))) (Fin (75 / 100)),
         8 := Lightened (Darkened (Col ''#1a1b26'') (Fin (80 / 100))) (Fin (25 / 100)),
         15 := Lightened (Darkened (Col ''#1a1b26'') (Fin (80 / 100))) (Fin (75 / 100))])) \<and>
   generic_adjust sym_util 0 True example_store =
     (Inr 0, example_store(0 := (example_store 0)
        [0 := Lightened (Col ''#1a1b26'') (Fin (95 / 100)),
         7 := Darkened (Lightened (Col ''#1a1b26'') (Fin (95 / 100))) (Fin (75 / 100)),
         8 := Darkened (Lightened (Col ''#1a1b26'') (Fin (95 / 100))) (Fin (25 / 100)),
         15 := Darkened (Lightened (Col ''#1a1b26'') (Fin (95 / 100))) (Fin (75 / 100))]))"
proof -
  have su: "saturate_color sym_util c a = Inr (Saturated c a)"
    "darken_color sym_util c a = Inr (Darkened c a)"
    "lighten_color sym_util c a = Inr (Lightened c a)" for c a
    by (simp_all add: sym_util_def)
  have s0: "example_store 0 ! 0 = Col ''#1a1b26''"
    by (simp add: example_store_def example_colors_def)
  have len: "16 \<le> length (example_store 0)" using length_example_store by simp
  note t = adjust_in_place[where r = 0 and u = sym_util and h = example_store]
  note active = t[where amount = "AStr ''0.5''" and light = False]
  note idle = t[where amount = "AStr []" and light = True]
  have f1: "frame 0 (saturate_colors sym_util 0 (AStr ''0.5''))"
    using active by (rule conjunct1)
  have f2: "ensures (\<lambda>x h'. x = 0) (saturate_colors sym_util 0 (AStr ''0.5''))"
    using active[THEN conjunct2] by (rule conjunct1)
  have f3: "frame 0 (generic_adjust sym_util 0 False)"
    using active[THEN conjunct2, THEN conjunct2] by (rule conjunct1)
  have f4: "ensures (\<lambda>x h'. x = 0 \<and> 16 \<le> length (h' 0) \<and> h' 0 ! 15 = h' 0 ! 7)
     (generic_adjust sym_util 0 False)"
    using active[THEN conjunct2, THEN conjunct2, THEN conjunct2] by (rule conjunct1)
  have f5: "saturate_colors sym_util 0 (AStr []) example_store = (Inr 0, example_store)"
    using idle[THEN conjunct2, THEN conjunct2, THEN conjunct2, THEN conjunct2, THEN conjunct1]
    by simp
  have f6: "saturate_colors sym_util 0 (AStr ''0.5'') example_store =
     (Inr 0, example_store(0 :=
        map (\<lambda>i. if i \<in> {0, 7, 8, 15} then example_store 0 ! i
                  else Saturated (example_store 0 ! i) (Fin (1 / 2)))
            [0..<length (example_store 0)]))"
    using active[THEN conjunct2, THEN conjunct2, THEN conjunct2, THEN conjunct2, THEN conjunct2,
        THEN conjunct1, rule_format,
        of "Fin (1 / 2)" "\<lambda>i. Saturated (example_store 0 ! i) (Fin (1 / 2))"]
      float_half su
    by simp
  have f7: "generic_adjust sym_util 0 False example_store =
     (Inr 0, example_store(0 := (example_store 0)
        [0 := Darkened (Col ''#1a1b26'') (Fin (80 / 100)),
         7 := Lightened (Darkened (Col ''#1a1b26'') (Fin (80 / 100))) (Fin (75 / 100)),
         8 := Lightened (Darkened (Col ''#1a1b26'') (Fin (80 / 100))) (Fin (25 / 100)),
         15 := Lightened (Darkened (Col ''#1a1b26'') (Fin (80 / 100))) (Fin (75 / 100))]))"
    using active[THEN conjunct2, THEN conjunct2, THEN conjunct2, THEN conjunct2, THEN conjunct2,
        THEN conjunct2, THEN conjunct1, rule_format,
        of "Darkened (Col ''#1a1b26'') (Fin (80 / 100))"
           "Lightened (Darkened (Col ''#1a1b26'') (Fin (80 / 100))) (Fin (75 / 100))"
           "Lightened (Darkened (Col ''#1a1b26'') (Fin (80 / 100))) (Fin (25 / 100))"]
      len s0 su
    by simp
  have f8: "generic_adjust sym_util 0 True example_store =
     (Inr 0, example_store(0 := (example_store 0)
        [0 := Lightened (Col ''#1a1b26'') (Fin (95 / 100)),
         7 := Darkened (Lightened (Col ''#1a1b26'') (Fin (95 / 100))) (Fin (75 / 100)),
         8 := Darkened (Lightened (Col ''#1a1b26'') (Fin (95 / 100))) (Fin (25 / 100)),
         15 := Darkened (Lightened (Col ''#1a1b26'') (Fin (95 / 100))) (Fin (75 / 100))]))"
    using idle[THEN conjunct2, THEN conjunct2, THEN conjunct2, THEN conjunct2, THEN conjunct2,
        THEN conjunct2, THEN conjunct2, rule_format,
        of "Lightened (Col ''#1a1b26'') (Fin (95 / 100))"
           "Darkened (Lightened (Col ''#1a1b26'') (Fin (95 / 100))) (Fin (75 / 100))"
           "Darkened (Lightened (Col ''#1a1b26'') (Fin (95 / 100))) (Fin (25 / 100))"]
      len s0 su
    by simp
  show ?thesis by (intro conjI) (rule f1 f2 f3 f4 f5 f6 f7 f8)+
qed

subsection \<open>hex_to_rgb\<close>

lemma digit16_plain:
  "digit16 c = Some x \<Longrightarrow>
   \<not> is_space c \<and> c \<noteq> CHR ''+'' \<and> c \<noteq> CHR ''-'' \<and> c \<noteq> CHR ''_'' \<and> c \<noteq> CHR ''x'' \<and>
   c \<noteq> CHR ''X'' \<and> c \<noteq> CHR ''#''"
  by (auto simp: digit16_def is_space_def Let_def split: if_splits)

lemma int16_pair:
  assumes "digit16 a = Some x" and "digit16 b = Some y"
  shows "int16 [a, b] = Inr (16 * int x + int y)"
proof -
  note pa = digit16_plain[OF assms(1)] and pb = digit16_plain[OF assms(2)]
  have s: "strip [a, b] = [a, b]" using pa pb by (simp add: strip_def)
  have g: "skip_sign [a, b] = (False, [a, b])" using pa by (simp add: skip_sign_def)
  have p: "skip_prefix16 [a, b] = [a, b]" using pb by (simp add: skip_prefix16_def)
  have d: "digits16 0 a [a, b] = Inr (16 * int x + int y)" using pa pb assms by simp
  show ?thesis using pa by (simp add: int16_def s g p d del: digits16.simps)
qed

lemma int16_Nil: "int16 [] = Inl ValueError"
  by (simp add: int16_def strip_def skip_sign_def skip_prefix16_def)

lemma lstrip_hashes:
  "c \<noteq> CHR ''#'' \<Longrightarrow> dropWhile (\<lambda>c. c = CHR ''#'') (replicate n (CHR ''#'') @ c # r) = c # r"
  by (induction n) auto

lemma hex_to_rgb_short:
  assumes "length (dropWhile (\<lambda>c. c = CHR ''#'') s) < 5"
  shows "hex_to_rgb s = Inl ValueError"
proof -
  have e: "take 2 (drop 4 (dropWhile (\<lambda>c. c = CHR ''#'') s)) = []" using assms by simp
  show ?thesis
  proof (cases "hex_to_rgb s")
    case (Inl e)
    then show ?thesis using hex_to_rgb_error by blast
  next
    case (Inr v)
    then have False
      unfolding hex_to_rgb_def Let_def e int16_Nil
      by (simp split: sum.splits)
    then show ?thesis ..
  qed
qed

lemma hex_to_rgb_digits:
  assumes "digit16 c1 = Some v1" "digit16 c2 = Some v2" "digit16 c3 = Some v3"
    "digit16 c4 = Some v4" "digit16 c5 = Some v5" "digit16 c6 = Some v6"
  shows "hex_to_rgb (replicate n (CHR ''#'') @ [c1, c2, c3, c4, c5, c6] @ t) =
     Inr (real (16 * v1 + v2) / 255, real (16 * v3 + v4) / 255, real (16 * v5 + v6) / 255)"
proof -
  have "c1 \<noteq> CHR ''#''" using digit16_plain[OF assms(1)] by simp
  then have h: "dropWhile (\<lambda>c. c = CHR ''#'') (replicate n (CHR ''#'') @ [c1, c2, c3, c4, c5, c6] @ t)
      = c1 # c2 # c3 # c4 # c5 # c6 # t"
    using lstrip_hashes[of c1 n "c2 # c3 # c4 # c5 # c6 # t"] by simp
  have t1: "take 2 (c1 # c2 # c3 # c4 # c5 # c6 # t) = [c1, c2]"
    and t2: "take 2 (drop 2 (c1 # c2 # c3 # c4 # c5 # c6 # t)) = [c3, c4]"
    and t3: "take 2 (drop 4 (c1 # c2 # c3 # c4 # c5 # c6 # t)) = [c5, c6]"
    by simp_all
  show ?thesis
    unfolding hex_to_rgb_def h Let_def t1 t2 t3
      int16_pair[OF assms(1,2)] int16_pair[OF assms(3,4)] int16_pair[OF assms(5,6)]
    by simp
qed

lemma take_drop_prefix: "n + k \<le> length xs \<Longrightarrow> take k (drop n (xs @ ys)) = take k (drop n xs)"
  by simp

lemma lstrip_append:
  assumes "dropWhile P s \<noteq> []"
  shows "dropWhile P (s @ t) = dropWhile P s @ t"
proof -
  from assms have "\<not> (\<forall>x \<in> set s. P x)" by (simp only: dropWhile_eq_Nil_conv not_False_eq_True)
  then obtain x where "x \<in> set s" "\<not> P x" by blast
  then show ?thesis by (rule dropWhile_append1)
qed

lemma hex_to_rgb_trailing:
  assumes "6 \<le> length (dropWhile (\<lambda>c. c = CHR ''#'') s)"
  shows "hex_to_rgb (s @ t) = hex_to_rgb s"
proof -
  define h where "h = dropWhile (\<lambda>c. c = CHR ''#'') s"
  have len: "6 \<le> length h" using assms unfolding h_def .
  then have "h \<noteq> []" by auto
  then have a: "dropWhile (\<lambda>c. c = CHR ''#'') (s @ t) = h @ t"
    unfolding h_def by (rule lstrip_append)
  have t1: "take 2 (drop 0 (h @ t)) = take 2 (drop 0 h)"
    and t2: "take 2 (drop 2 (h @ t)) = take 2 (drop 2 h)"
    and t3: "take 2 (drop 4 (h @ t)) = take 2 (drop 4 h)"
    using len by (simp_all only: take_drop_prefix)
  have t1': "take 2 (h @ t) = take 2 h" using t1 by simp
  have "hex_to_rgb (s @ t) =
     (case int16 (take 2 (h @ t)) of
        Inl e \<Rightarrow> Inl e
      | Inr r \<Rightarrow>
          (case int16 (take 2 (drop 2 (h @ t))) of
             Inl e \<Rightarrow> Inl e
           | Inr g \<Rightarrow>
               (case int16 (take 2 (drop 4 (h @ t))) of
                  Inl e \<Rightarrow> Inl e
                | Inr b \<Rightarrow>
                    Inr (real_of_int r / 255, real_of_int g / 255, real_of_int b / 255))))"
    by (simp only: hex_to_rgb_def a Let_def)
  also have "\<dots> = hex_to_rgb s"
    by (simp only: t1' t2 t3 hex_to_rgb_def Let_def h_def[symmetric])
  finally show ?thesis .
qed

lemma space_plain:
  "is_space c \<Longrightarrow> digit16 c = None \<and> c \<noteq> CHR ''+'' \<and> c \<noteq> CHR ''-'' \<and> c \<noteq> CHR ''_''"
  by (auto simp: digit16_def is_space_def Let_def)

lemma sign_plain: "c = CHR ''+'' \<or> c = CHR ''-'' \<or> c = CHR ''_'' \<Longrightarrow> digit16 c = None \<and> \<not> is_space c"
  by (auto simp: digit16_def is_space_def Let_def)

lemma int16_one: "int16 [a] = (case digit16 a of Some x \<Rightarrow> Inr (int x) | None \<Rightarrow> Inl ValueError)"
proof (cases "digit16 a")
  case (Some x)
  note p = digit16_plain[OF Some]
  have "strip [a] = [a]" using p by (simp add: strip_def)
  then show ?thesis using p Some by (simp add: int16_def skip_sign_def skip_prefix16_def)
next
  case None
  show ?thesis
  proof (cases "is_space a")
    case True
    then have "strip [a] = []" by (simp add: strip_def)
    then show ?thesis using None by (simp add: int16_def skip_sign_def skip_prefix16_def)
  next
    case False
    then have "strip [a] = [a]" by (simp add: strip_def)
    then show ?thesis using None
      by (simp add: int16_def skip_sign_def skip_prefix16_def)
  qed
qed

lemma int16_strip: "strip s = strip t \<Longrightarrow> int16 s = int16 t"
  by (simp add: int16_def)

lemma int16_two:
  "int16 [a, b] = (case slice_value [a, b] of Some v \<Rightarrow> Inr v | None \<Rightarrow> Inl ValueError)"
proof (cases "is_space a")
  case True
  have "strip [a, b] = strip [b]" using True by (simp add: strip_def)
  then have "int16 [a, b] = int16 [b]" by (rule int16_strip)
  then show ?thesis using True space_plain[OF True] int16_one[of b]
    by (cases "digit16 b") simp_all
next
  case na: False
  show ?thesis
  proof (cases "is_space b")
    case True
    have "strip [a, b] = strip [a]" using True na by (simp add: strip_def)
    then have "int16 [a, b] = int16 [a]" by (rule int16_strip)
    then show ?thesis using True space_plain[OF True] int16_one[of a]
      by (cases "digit16 a") simp_all
  next
    case nb: False
    have s: "strip [a, b] = [a, b]" using na nb by (simp add: strip_def)
    consider (plus) "a = CHR ''+''" | (minus) "a = CHR ''-''" | (under) "a = CHR ''_''"
      | (digit) x where "digit16 a = Some x"
      | (other) "a \<noteq> CHR ''+''" "a \<noteq> CHR ''-''" "a \<noteq> CHR ''_''" "digit16 a = None"
      by (cases "digit16 a") auto
    then show ?thesis
    proof cases
      case plus
      then have da: "digit16 a = None" using sign_plain[of a] by simp
      show ?thesis
      proof (cases "digit16 b")
        case None
        then show ?thesis using plus da s
          by (simp add: int16_def skip_sign_def skip_prefix16_def)
      next
        case (Some y)
        then show ?thesis using plus da s digit16_plain[OF Some]
          by (simp add: int16_def skip_sign_def skip_prefix16_def)
      qed
    next
      case minus
      then have da: "digit16 a = None" using sign_plain[of a] by simp
      show ?thesis
      proof (cases "digit16 b")
        case None
        then show ?thesis using minus da na s
          by (simp add: int16_def skip_sign_def skip_prefix16_def)
      next
        case (Some y)
        then show ?thesis using minus da na s digit16_plain[OF Some]
          by (simp add: int16_def skip_sign_def skip_prefix16_def)
      qed
    next
      case under
      then have da: "digit16 a = None" using sign_plain[of a] by simp
      show ?thesis using under da na s
        by (cases "digit16 b") (simp_all add: int16_def skip_sign_def skip_prefix16_def)
    next
      case (digit x)
      note pa = digit16_plain[OF digit]
      show ?thesis
      proof (cases "digit16 b")
        case (Some y)
        then show ?thesis using int16_pair[OF digit Some] digit by simp
      next
        case None
        have g: "skip_sign [a, b] = (False, [a, b])" using pa by (simp add: skip_sign_def)
        show ?thesis
        proof (cases "a = CHR ''0'' \<and> (b = CHR ''x'' \<or> b = CHR ''X'')")
          case True
          then have "skip_prefix16 [a, b] = []" by (simp add: skip_prefix16_def)
          then show ?thesis using None digit nb s g by (simp add: int16_def)
        next
          case False
          then have "skip_prefix16 [a, b] = [a, b]" by (auto simp: skip_prefix16_def)
          then show ?thesis using None digit nb pa s g by (simp add: int16_def)
        qed
      qed
    next
      case other
      have g: "skip_sign [a, b] = (False, [a, b])" using other by (simp add: skip_sign_def)
      have "a \<noteq> CHR ''0''" using other(4) by (auto simp: digit16_def)
      then have p: "skip_prefix16 [a, b] = [a, b]" by (simp add: skip_prefix16_def)
      show ?thesis using other na s g p
        by (cases "digit16 b") (simp_all add: int16_def)
    qed
  qed
qed

lemma int16_slice:
  "length t \<le> 2 \<Longrightarrow> int16 t = (case slice_value t of Some v \<Rightarrow> Inr v | None \<Rightarrow> Inl ValueError)"
proof (cases t)
  case Nil
  then show ?thesis by (simp add: int16_Nil)
next
  case (Cons a r)
  assume l: "length t \<le> 2"
  show ?thesis
  proof (cases r)
    case Nil
    then show ?thesis using Cons int16_one[of a] by (cases "digit16 a") simp_all
  next
    case c2: (Cons b r')
    then have "r' = []" using l Cons by simp
    then show ?thesis using Cons c2 int16_two[of a b] by simp
  qed
qed

lemma hex_to_rgb_slices:
  "hex_to_rgb s =
     (let h = dropWhile (\<lambda>c. c = CHR ''#'') s in
      case (slice_value (take 2 h), slice_value (take 2 (drop 2 h)),
            slice_value (take 2 (drop 4 h))) of
        (Some r, Some g, Some b) \<Rightarrow>
          Inr (real_of_int r / 255, real_of_int g / 255, real_of_int b / 255)
      | _ \<Rightarrow> Inl ValueError)"
proof -
  define h where "h = dropWhile (\<lambda>c. c = CHR ''#'') s"
  have a: "int16 (take 2 h) =
      (case slice_value (take 2 h) of Some v \<Rightarrow> Inr v | None \<Rightarrow> Inl ValueError)"
    by (rule int16_slice) simp
  have b: "int16 (take 2 (drop 2 h)) =
      (case slice_value (take 2 (drop 2 h)) of Some v \<Rightarrow> Inr v | None \<Rightarrow> Inl ValueError)"
    by (rule int16_slice) simp
  have c: "int16 (take 2 (drop 4 h)) =
      (case slice_value (take 2 (drop 4 h)) of Some v \<Rightarrow> Inr v | None \<Rightarrow> Inl ValueError)"
    by (rule int16_slice) simp
  show ?thesis
    unfolding hex_to_rgb_def Let_def h_def[symmetric] a b c
    by (simp split: option.splits)
qed

lemma slice_bad:
  assumes "c \<in> set t" and "digit16 c = None" and "\<not> is_space c"
    and "c \<noteq> CHR ''+''" and "c \<noteq> CHR ''-''"
  shows "slice_value t = None"
proof (cases t)
  case Nil
  then show ?thesis by simp
next
  case (Cons a r)
  show ?thesis
  proof (cases r)
    case Nil
    then show ?thesis using Cons assms by simp
  next
    case c2: (Cons b r')
    show ?thesis
    proof (cases r')
      case Nil
      then show ?thesis using Cons c2 assms
        by (cases "digit16 a"; cases "digit16 b") auto
    next
      case (Cons x r'')
      then show ?thesis using \<open>t = a # r\<close> c2 by simp
    qed
  qed
qed

lemma nth_in_slice:
  assumes "j \<le> k" and "k < j + 2" and "k < length h"
  shows "h ! k \<in> set (take 2 (drop j h))"
proof -
  have l: "k - j < length (take 2 (drop j h))" using assms by auto
  have "take 2 (drop j h) ! (k - j) = h ! k" using assms by simp
  then show ?thesis using nth_mem[OF l] by simp
qed

lemma hex_to_rgb_bad:
  assumes "k < 6" and "k < length (dropWhile (\<lambda>c. c = CHR ''#'') s)"
    and "digit16 (dropWhile (\<lambda>c. c = CHR ''#'') s ! k) = None"
    and "\<not> is_space (dropWhile (\<lambda>c. c = CHR ''#'') s ! k)"
    and "dropWhile (\<lambda>c. c = CHR ''#'') s ! k \<noteq> CHR ''+''"
    and "dropWhile (\<lambda>c. c = CHR ''#'') s ! k \<noteq> CHR ''-''"
  shows "hex_to_rgb s = Inl ValueError"
proof -
  define h where "h = dropWhile (\<lambda>c. c = CHR ''#'') s"
  note b = assms(2-6)[folded h_def]
  consider "k < 2" | "2 \<le> k \<and> k < 4" | "4 \<le> k \<and> k < 6" using assms(1) by linarith
  then have "slice_value (take 2 h) = None \<or> slice_value (take 2 (drop 2 h)) = None \<or>
      slice_value (take 2 (drop 4 h)) = None"
  proof cases
    case 1
    then have "h ! k \<in> set (take 2 (drop 0 h))" using b(1) by (intro nth_in_slice) simp_all
    then have "h ! k \<in> set (take 2 h)" by simp
    then show ?thesis using slice_bad[OF _ b(2-5)] by simp
  next
    case 2
    then have "h ! k \<in> set (take 2 (drop 2 h))" using b(1) by (intro nth_in_slice) simp_all
    then show ?thesis using slice_bad[OF _ b(2-5)] by simp
  next
    case 3
    then have "h ! k \<in> set (take 2 (drop 4 h))" using b(1) by (intro nth_in_slice) simp_all
    then show ?thesis using slice_bad[OF _ b(2-5)] by simp
  qed
  then show ?thesis
    unfolding hex_to_rgb_slices[of s] Let_def h_def[symmetric]
    by (auto split: option.splits)
qed

text \<open>
  C9, as the code has it. \<open>hex_to_rgb\<close> drops the leading \<^verbatim>\<open>#\<close>s and reads the
  characters 0-1, 2-3 and 4-5 of the rest as three integers in base 16, each divided by
  255: it returns their triple if each of the three slices denotes an integer, and
  raises ValueError if one does not. So six digits, after any number of \<^verbatim>\<open>#\<close> and
  before any further characters, give the values of the three pairs of digits; a string
  with fewer than five characters after its \<^verbatim>\<open>#\<close>s raises; a string with a character
  among the first six that is no digit, no sign and no whitespace raises; characters
  after the sixth are ignored; every failure is a ValueError.
\<close>

theorem hex_to_rgb_amended:
  "hex_to_rgb s =
     (let h = dropWhile (\<lambda>c. c = CHR ''#'') s in
      case (slice_value (take 2 h), slice_value (take 2 (drop 2 h)),
            slice_value (take 2 (drop 4 h))) of
        (Some r, Some g, Some b) \<Rightarrow>
          Inr (real_of_int r / 255, real_of_int g / 255, real_of_int b / 255)
      | _ \<Rightarrow> Inl ValueError) \<and>
   (\<forall>c1 c2 c3 c4 c5 c6 v1 v2 v3 v4 v5 v6 n t.
      digit16 c1 = Some v1 \<and> digit16 c2 = Some v2 \<and> digit16 c3 = Some v3 \<and>
      digit16 c4 = Some v4 \<and> digit16 c5 = Some v5 \<and> digit16 c6 = Some v6 \<longrightarrow>
      hex_to_rgb (replicate n (CHR ''#'') @ [c1, c2, c3, c4, c5, c6] @ t) =
        Inr (real (16 * v1 + v2) / 255, real (16 * v3 + v4) / 255, real (16 * v5 + v6) / 255)) \<and>
   (length (dropWhile (\<lambda>c. c = CHR ''#'') s) < 5 \<longrightarrow> hex_to_rgb s = Inl ValueError) \<and>
   (\<forall>k<6. k < length (dropWhile (\<lambda>c. c = CHR ''#'') s) \<and>
           digit16 (dropWhile (\<lambda>c. c = CHR ''#'') s ! k) = None \<and>
           \<not> is_space (dropWhile (\<lambda>c. c = CHR ''#'') s ! k) \<and>
           dropWhile (\<lambda>c. c = CHR ''#'') s ! k \<noteq> CHR ''+'' \<and>
           dropWhile (\<lambda>c. c = CHR ''#'') s ! k \<noteq> CHR ''-'' \<longrightarrow>
         hex_to_rgb s = Inl ValueError) \<and>
   (6 \<le> length (dropWhile (\<lambda>c. c = CHR ''#'') s) \<longrightarrow> (\<forall>t. hex_to_rgb (s @ t) = hex_to_rgb s)) \<and>
   (\<forall>e. hex_to_rgb s = Inl e \<longrightarrow> e = ValueError)"
proof (intro conjI allI impI)
  show "hex_to_rgb s =
     (let h = dropWhile (\<lambda>c. c = CHR ''#'') s in
      case (slice_value (take 2 h), slice_value (take 2 (drop 2 h)),
            slice_value (take 2 (drop 4 h))) of
        (Some r, Some g, Some b) \<Rightarrow>
          Inr (real_of_int r / 255, real_of_int g / 255, real_of_int b / 255)
      | _ \<Rightarrow> Inl ValueError)"
    by (rule hex_to_rgb_slices)
next
  fix c1 c2 c3 c4 c5 c6 v1 v2 v3 v4 v5 v6 n t
  assume a: "digit16 c1 = Some v1 \<and> digit16 c2 = Some v2 \<and> digit16 c3 = Some v3 \<and>
      digit16 c4 = Some v4 \<and> digit16 c5 = Some v5 \<and> digit16 c6 = Some v6"
  show "hex_to_rgb (replicate n (CHR ''#'') @ [c1, c2, c3, c4, c5, c6] @ t) =
        Inr (real (16 * v1 + v2) / 255, real (16 * v3 + v4) / 255, real (16 * v5 + v6) / 255)"
    using a hex_to_rgb_digits[of c1 v1 c2 v2 c3 v3 c4 v4 c5 v5 c6 v6 n t] by (simp only:)
next
  assume "length (dropWhile (\<lambda>c. c = CHR ''#'') s) < 5"
  then show "hex_to_rgb s = Inl ValueError" by (rule hex_to_rgb_short)
next
  fix k
  assume k: "k < 6" and b: "k < length (dropWhile (\<lambda>c. c = CHR ''#'') s) \<and>
           digit16 (dropWhile (\<lambda>c. c = CHR ''#'') s ! k) = None \<and>
           \<not> is_space (dropWhile (\<lambda>c. c = CHR ''#'') s ! k) \<and>
           dropWhile (\<lambda>c. c = CHR ''#'') s ! k \<noteq> CHR ''+'' \<and>
           dropWhile (\<lambda>c. c = CHR ''#'') s ! k \<noteq> CHR ''-''"
  show "hex_to_rgb s = Inl ValueError" by (rule hex_to_rgb_bad[OF k]) (use b in blast)+
next
  fix t assume "6 \<le> length (dropWhile (\<lambda>c. c = CHR ''#'') s)"
  then show "hex_to_rgb (s @ t) = hex_to_rgb s" by (rule hex_to_rgb_trailing)
next
  fix e assume "hex_to_rgb s = Inl e"
  then show "e = ValueError" by (rule hex_to_rgb_error)
qed


theorem hex_to_rgb_amended_witness:
  "hex_to_rgb ''#1a2B3c'' = Inr (26 / 255, 43 / 255, 60 / 255) \<and>
   hex_to_rgb ''+a 1f'' = Inr (10 / 255, 1 / 255, 15 / 255) \<and>
   length (dropWhile (\<lambda>c. c = CHR ''#'') ''#1a2b'') < 5 \<and> hex_to_rgb ''#1a2b'' = Inl ValueError \<and>
   hex_to_rgb ''#zzzzzz'' = Inl ValueError \<and>
   hex_to_rgb ''#12g456'' = Inl ValueError \<and>
   6 \<le> length (dropWhile (\<lambda>c. c = CHR ''#'') ''1a2B3c'') \<and>
   hex_to_rgb (''1a2B3c'' @ ''ff'') = hex_to_rgb ''1a2B3c''"
proof -
  have d: "digit16 CHR ''1'' = Some 1" "digit16 CHR ''a'' = Some 10" "digit16 CHR ''2'' = Some 2"
    "digit16 CHR ''B'' = Some 11" "digit16 CHR ''3'' = Some 3" "digit16 CHR ''c'' = Some 12"
    "digit16 CHR ''f'' = Some 15"
    by (simp_all add: digit16_def)
  have n: "digit16 CHR ''z'' = None" "digit16 CHR ''g'' = None" "digit16 CHR ''+'' = None"
    "digit16 CHR 0x20 = None"
    by (simp_all add: digit16_def)
  have sp: "\<not> is_space CHR ''z''" "\<not> is_space CHR ''g''" "is_space CHR 0x20"
    by (simp_all add: is_space_def)
  have a: "hex_to_rgb ''#1a2B3c'' = Inr (26 / 255, 43 / 255, 60 / 255)"
    using hex_to_rgb_amended[of "''#1a2b''", THEN conjunct2, THEN conjunct1, rule_format,
        of "CHR ''1''" 1 "CHR ''a''" 10 "CHR ''2''" 2 "CHR ''B''" 11 "CHR ''3''" 3 "CHR ''c''" 12
           1 "[]"] d
    by simp
  have s: "hex_to_rgb ''+a 1f'' = Inr (10 / 255, 1 / 255, 15 / 255)"
    using hex_to_rgb_amended[of "''+a 1f''", THEN conjunct1] d n sp by simp
  have b: "hex_to_rgb ''#1a2b'' = Inl ValueError"
    using hex_to_rgb_amended[of "''#1a2b''", THEN conjunct2, THEN conjunct2, THEN conjunct1]
    by simp
  have z: "hex_to_rgb ''#zzzzzz'' = Inl ValueError"
    using hex_to_rgb_amended[of "''#zzzzzz''", THEN conjunct2, THEN conjunct2, THEN conjunct2,
        THEN conjunct1, rule_format, of 0] n sp
    by simp
  have g: "hex_to_rgb ''#12g456'' = Inl ValueError"
    using hex_to_rgb_amended[of "''#12g456''", THEN conjunct2, THEN conjunct2, THEN conjunct2,
        THEN conjunct1, rule_format, of 2] n sp
    by simp
  have c: "hex_to_rgb (''1a2B3c'' @ ''ff'') = hex_to_rgb ''1a2B3c''"
    using hex_to_rgb_amended[of "''1a2B3c''", THEN conjunct2, THEN conjunct2, THEN conjunct2,
        THEN conjunct2, THEN conjunct1]
    by simp
  show ?thesis using a s b z g c by simp
qed


text \<open>
  The claim C9 as stated fails: these strings are not of the form \<^verbatim>\<open>#rrggbb\<close> or
  \<^verbatim>\<open>rrggbb\<close> (eight digits, five digits, signs and a space among the digits), and
  each is parsed.
\<close>

theorem hex_to_rgb_length_counterexample:
  "\<not> is_rrggbb ''#aabbccdd'' \<and>
   hex_to_rgb ''#aabbccdd'' = Inr (170 / 255, 187 / 255, 204 / 255) \<and>
   \<not> is_rrggbb ''abcde'' \<and> hex_to_rgb ''abcde'' = Inr (171 / 255, 205 / 255, 14 / 255) \<and>
   \<not> is_rrggbb ''+a-b c'' \<and> hex_to_rgb ''+a-b c'' = Inr (10 / 255, - 11 / 255, 12 / 255)"
  by (simp add: is_rrggbb_def hex_defs)

subsection \<open>cache_fname\<close>

lemma str_nat_10000: "str_nat 10000 = ''10000''"
  by (simp add: str_nat.simps digit_char_def)

text \<open>
  C3. The path has the fields of the claim in the order of the claim, but the image path
  is not sanitized as the claim says: in the path of the example image the \<^verbatim>\<open>/\<close>, the
  \<^verbatim>\<open>.\<close> and also the \<^verbatim>\<open>|\<close> are replaced by \<^verbatim>\<open>_\<close>, and the backslash is kept.
\<close>

theorem cache_fname_run:
  "cache_fname example_fs ''1.1.0'' example_image ''wal'' False ''/home/user/.cache/wal'' [] =
     Inr [''/home/user/.cache/wal'', ''schemes'',
          ''_home_user_a_b'' @ [CHR 0x5C] @ ''c_jpg_dark_wal__10000_1.1.0.json'']"
  by (simp add: cache_fname_def example_fs_def example_image_def sanitize_def str_nat_10000)

subsection \<open>get\<close>

lemma cache_fname_size:
  "map_option fsize (fs1 img) = map_option fsize (fs img) \<Longrightarrow>
   cache_fname fs1 v img backend light cache_dir sat = cache_fname fs v img backend light cache_dir sat"
  by (cases "fs img"; cases "fs1 img") (auto simp: cache_fname_def)

text \<open>
  C4. If a call of \<open>get\<close> returns a scheme, and the image has the size it had, then a
  second call with the same arguments returns the same scheme with the alpha value of
  the second call in its alpha field, whatever the backends and whatever the first alpha
  value were, and leaves the file system as it is: it reads the cache file, which the
  first call wrote or found.
\<close>

theorem get_twice:
  assumes first: "get e img light backend cache_dir sat fs = (Inr s1, fs1)"
    and same: "map_option fsize (fs1 img) = map_option fsize (fs img)"
    and ver: "cache_version e' = cache_version e"
  shows "get e' img light backend cache_dir sat fs1 = (Inr (s1\<lparr>scheme_alpha := alpha_num e'\<rparr>), fs1)"
proof -
  obtain cache_name where cn: "cache_fname fs (cache_version e) img backend light cache_dir sat = Inr cache_name"
    using first by (cases "cache_fname fs (cache_version e) img backend light cache_dir sat")
      (simp_all add: get_def)
  obtain cache_file where cf: "path_join cache_name = Inr cache_file"
    using first cn by (cases "path_join cache_name") (simp_all add: get_def)
  have cn1: "cache_fname fs1 (cache_version e') img backend light cache_dir sat = Inr cache_name"
    using cache_fname_size[of fs1 img fs, OF same] cn ver by simp
  show ?thesis
  proof (cases "fs cache_file")
    case (Some f)
    then obtain c where c: "theme_file fs cache_file = Inr c"
      using first cn cf by (cases "theme_file fs cache_file") (simp_all add: get_def)
    have "s1 = c\<lparr>scheme_alpha := alpha_num e\<rparr>" and "fs1 = fs"
      using first cn cf Some c by (simp_all add: get_def)
    then show ?thesis using cn1 cf Some c by (simp add: get_def)
  next
    case None
    have "fs1 cache_file \<noteq> None \<and> theme_file fs1 cache_file = Inr s1"
      using first cn cf None
      by (auto simp: get_def save_file_json_def theme_file_def
          split: sum.splits prod.splits if_splits)
    then show ?thesis using cn1 cf by (auto simp: get_def)
  qed
qed

lemma example_match: "match_colors example_colors = Inr (map Some example_matched)"
  by (simp add: match_colors_def example_colors_def example_matched_def x_colors_def
      x_colors_b_def color_diff_def hex_defs power2_eq_square)

lemma example_dict: "colors_to_dict ''100'' example_colors example_image = Inr example_scheme"
  by (simp add: colors_to_dict_def example_match example_matched_def example_scheme_def
      enumerate_eq_zip upt_rec str_nat.simps digit_char_def)

lemma example_name:
  "cache_fname example_fs ''1.1.0'' example_image ''wal'' False ''/home/user/.cache/wal'' [] =
     Inr example_cache_name"
  by (simp add: cache_fname_def example_fs_def example_image_def sanitize_def str_nat_10000
      example_cache_name_def)

lemma example_path: "path_join example_cache_name = Inr example_cache_file"
  by (simp add: join_step_def example_cache_file_def example_cache_name_def)

lemma example_miss: "example_fs example_cache_file = None"
  by (simp add: example_fs_def example_cache_file_def example_image_def)

lemma example_first:
  "get example_env example_image False ''wal'' ''/home/user/.cache/wal'' [] example_fs =
     (Inr example_scheme,
      example_fs(example_cache_file \<mapsto> \<lparr>fsize = 2000, fjson = Some example_scheme\<rparr>))"
  unfolding get_def
  by (simp add: example_env_def example_name example_path example_miss get_backend_def
      saturate_colors_def ret_def example_dict save_file_json_def)

theorem get_twice_witness:
  "get example_env example_image False ''wal'' ''/home/user/.cache/wal'' [] example_fs =
     (Inr example_scheme,
      example_fs(example_cache_file \<mapsto> \<lparr>fsize = 2000, fjson = Some example_scheme\<rparr>)) \<and>
   map_option fsize
     ((example_fs(example_cache_file \<mapsto> \<lparr>fsize = 2000, fjson = Some example_scheme\<rparr>))
        example_image) = map_option fsize (example_fs example_image) \<and>
   cache_version (example_env\<lparr>alpha_num := ''80'', shuffle := id\<rparr>) = cache_version example_env \<and>
   get (example_env\<lparr>alpha_num := ''80'', shuffle := id\<rparr>) example_image False ''wal''
       ''/home/user/.cache/wal'' []
       (example_fs(example_cache_file \<mapsto> \<lparr>fsize = 2000, fjson = Some example_scheme\<rparr>)) =
     (Inr (example_scheme\<lparr>scheme_alpha := ''80''\<rparr>),
      example_fs(example_cache_file \<mapsto> \<lparr>fsize = 2000, fjson = Some example_scheme\<rparr>))"
proof -
  have ne: "example_image \<noteq> example_cache_file"
    by (simp add: example_cache_file_def example_image_def)
  have same: "map_option fsize
     ((example_fs(example_cache_file \<mapsto> \<lparr>fsize = 2000, fjson = Some example_scheme\<rparr>))
        example_image) = map_option fsize (example_fs example_image)"
    using ne by simp
  have ver: "cache_version (example_env\<lparr>alpha_num := ''80'', shuffle := id\<rparr>) =
      cache_version example_env" by simp
  have a: "alpha_num (example_env\<lparr>alpha_num := ''80'', shuffle := id\<rparr>) = ''80''" by simp
  note t = get_twice[OF example_first same ver, unfolded a]
  show ?thesis by (intro conjI) (rule example_first same ver t)+
qed

end
